theory Spec2Isabelle
  imports Complex_Main
begin

section \<open>Strings of code points\<close>

text \<open>
  A Python \<open>str\<close> is a sequence of Unicode code points, and \<open>len\<close> counts code points.
  A character is therefore a natural number and a string a list of them; \<open>u\<close> embeds an
  ASCII literal.  The bullet of the source is code point 8226, the section sign 167.

  The whitespace table is the one of \<open>str.isspace\<close>, which \<open>str.strip\<close>, \<open>str.split()\<close>
  and the pattern class \<open>\s\<close> share.  The explicit ranges of the patterns (\<open>[A-Z]\<close>,
  \<open>[a-z]\<close>, \<open>[0-9]\<close>) are ranges of code points.
\<close>

type_synonym uchar = nat
type_synonym ustr = "uchar list"

definition u :: "string \<Rightarrow> ustr" where
  "u s = map of_char s"

definition bullet :: uchar where
  "bullet = 8226"

definition newline :: uchar where
  "newline = 10"

definition is_space :: "uchar \<Rightarrow> bool" where
  "is_space c = ((9 \<le> c \<and> c \<le> 13) \<or> (28 \<le> c \<and> c \<le> 32) \<or> c = 133 \<or> c = 160
     \<or> c = 5760 \<or> (8192 \<le> c \<and> c \<le> 8202) \<or> c = 8232 \<or> c = 8233 \<or> c = 8239
     \<or> c = 8287 \<or> c = 12288)"

definition is_AZ :: "uchar \<Rightarrow> bool" where
  "is_AZ c = (65 \<le> c \<and> c \<le> 90)"

definition is_az :: "uchar \<Rightarrow> bool" where
  "is_az c = (97 \<le> c \<and> c \<le> 122)"

definition is_09 :: "uchar \<Rightarrow> bool" where
  "is_09 c = (48 \<le> c \<and> c \<le> 57)"

subsection \<open>The Unicode character database\<close>

text \<open>
  The classes \<open>\d\<close> and \<open>\w\<close> of a pattern over \<open>str\<close> and the methods \<open>str.lower\<close>,
  \<open>str.upper\<close>, \<open>str.title\<close> and \<open>str.isupper\<close> read the tables of the Unicode character
  database of the interpreter, which are not part of the repository.  They are a parameter
  of the model: \<open>isdecimal\<close> is the property behind \<open>\d\<close>, \<open>isalnum\<close> the one behind \<open>\w\<close>, and
  the four methods are functions of the whole string, as the lower-casing of a capital
  sigma depends on its neighbours and one character can become several.
\<close>

record unicode_data =
  isdecimal :: "uchar \<Rightarrow> bool"
  isalnum :: "uchar \<Rightarrow> bool"
  lower_str :: "ustr \<Rightarrow> ustr"
  upper_str :: "ustr \<Rightarrow> ustr"
  title :: "ustr \<Rightarrow> ustr"
  isupper :: "ustr \<Rightarrow> bool"

text \<open>\<open>\d\<close> and \<open>\w\<close>\<close>

definition is_digit :: "unicode_data \<Rightarrow> uchar \<Rightarrow> bool" where
  "is_digit U c = isdecimal U c"

definition is_word :: "unicode_data \<Rightarrow> uchar \<Rightarrow> bool" where
  "is_word U c = (isalnum U c \<or> c = 95)"

text \<open>
  On ASCII text the tables are known: the letters and digits are the ASCII ones and the
  two cases of a letter are 32 apart.  \<open>ascii_ok U\<close> says that \<open>U\<close> agrees with that, as the
  tables of every interpreter do; \<open>ascii_data\<close> is the instance that knows no letter or
  digit outside ASCII.
\<close>

definition ascii_lower :: "uchar \<Rightarrow> uchar" where
  "ascii_lower c = (if is_AZ c then c + 32 else c)"

definition ascii_upper :: "uchar \<Rightarrow> uchar" where
  "ascii_upper c = (if is_az c then c - 32 else c)"

fun ascii_title_from :: "bool \<Rightarrow> ustr \<Rightarrow> ustr" where
  "ascii_title_from prev_cased [] = []"
| "ascii_title_from prev_cased (c # cs) =
     (if prev_cased then ascii_lower c else ascii_upper c) # ascii_title_from (is_AZ c \<or> is_az c) cs"

definition ascii_isupper :: "ustr \<Rightarrow> bool" where
  "ascii_isupper s = (list_ex is_AZ s \<and> \<not> list_ex is_az s)"

definition is_ascii :: "ustr \<Rightarrow> bool" where
  "is_ascii s = list_all (\<lambda>c. c < 128) s"

definition ascii_ok :: "unicode_data \<Rightarrow> bool" where
  "ascii_ok U =
     ((\<forall>c. c < 128 \<longrightarrow> isdecimal U c = is_09 c) \<and>
      (\<forall>c. c < 128 \<longrightarrow> isalnum U c = (is_AZ c \<or> is_az c \<or> is_09 c)) \<and>
      (\<forall>s. is_ascii s \<longrightarrow> lower_str U s = map ascii_lower s) \<and>
      (\<forall>s. is_ascii s \<longrightarrow> upper_str U s = map ascii_upper s) \<and>
      (\<forall>s. is_ascii s \<longrightarrow> title U s = ascii_title_from False s) \<and>
      (\<forall>s. is_ascii s \<longrightarrow> isupper U s = ascii_isupper s))"

definition ascii_data :: unicode_data where
  "ascii_data =
     \<lparr> isdecimal = is_09, isalnum = (\<lambda>c. is_AZ c \<or> is_az c \<or> is_09 c),
       lower_str = map ascii_lower, upper_str = map ascii_upper,
       title = ascii_title_from False, isupper = ascii_isupper \<rparr>"

subsection \<open>The string methods the parser calls\<close>

text \<open>\<open>s.strip()\<close>\<close>

definition strip :: "ustr \<Rightarrow> ustr" where
  "strip s = rev (dropWhile is_space (rev (dropWhile is_space s)))"

text \<open>\<open>s.split(sep)\<close> for a separator of one character: empty pieces are kept.\<close>

fun split_on :: "uchar \<Rightarrow> ustr \<Rightarrow> ustr list" where
  "split_on sep [] = [[]]"
| "split_on sep (c # cs) =
     (if c = sep then [] # split_on sep cs
      else (case split_on sep cs of [] \<Rightarrow> [[c]] | w # ws \<Rightarrow> (c # w) # ws))"

text \<open>\<open>s.split(sep, 1)\<close>: at most one cut, at the first separator.\<close>

definition split_once :: "uchar \<Rightarrow> ustr \<Rightarrow> ustr list" where
  "split_once sep s =
     (if sep \<in> set s then [takeWhile (\<lambda>c. c \<noteq> sep) s, tl (dropWhile (\<lambda>c. c \<noteq> sep) s)]
      else [s])"

text \<open>\<open>s.split()\<close>: the maximal runs of non-whitespace.\<close>

fun split_ws_acc :: "ustr \<Rightarrow> ustr \<Rightarrow> ustr list" where
  "split_ws_acc w [] = (if w = [] then [] else [rev w])"
| "split_ws_acc w (c # cs) =
     (if is_space c then (if w = [] then split_ws_acc [] cs else rev w # split_ws_acc [] cs)
      else split_ws_acc (c # w) cs)"

definition split_ws :: "ustr \<Rightarrow> ustr list" where
  "split_ws s = split_ws_acc [] s"

text \<open>\<open>sub in s\<close>\<close>

fun starts_with :: "ustr \<Rightarrow> ustr \<Rightarrow> bool" where
  "starts_with [] s = True"
| "starts_with (p # ps) [] = False"
| "starts_with (p # ps) (c # cs) = (p = c \<and> starts_with ps cs)"

fun contains :: "ustr \<Rightarrow> ustr \<Rightarrow> bool" where
  "contains sub [] = (sub = [])"
| "contains sub (c # cs) = (starts_with sub (c # cs) \<or> contains sub cs)"

text \<open>\<open>list(dict.fromkeys(xs))\<close>: the first occurrence of every element, in order.\<close>

fun fromkeys :: "'a list \<Rightarrow> 'a list \<Rightarrow> 'a list" where
  "fromkeys seen [] = []"
| "fromkeys seen (x # xs) =
     (if x \<in> set seen then fromkeys seen xs else x # fromkeys (x # seen) xs)"

definition dedup :: "'a list \<Rightarrow> 'a list" where
  "dedup xs = fromkeys [] xs"

text \<open>\<open>str(n)\<close> for a length.\<close>

fun digits_of :: "nat \<Rightarrow> nat \<Rightarrow> string" where
  "digits_of 0 n = []"
| "digits_of (Suc k) n =
     (if n < 10 then [char_of (48 + n)] else digits_of k (n div 10) @ [char_of (48 + n mod 10)])"

definition str_of_nat :: "nat \<Rightarrow> string" where
  "str_of_nat n = digits_of (Suc n) n"

section \<open>Regular expressions as the \<open>re\<close> module matches them\<close>

text \<open>
  The patterns of the source are kept as data and run by one backtracking matcher.  A
  position is the character before the cursor (for \<open>\b\<close> and \<open>^\<close>) and the text after it.
  \<open>rmatch r x\<close> lists every position at which a match of \<open>r\<close> started at \<open>x\<close> can end, in the
  order in which backtracking tries them: the first alternative before the second, a
  greedy repetition longest first, a lazy one shortest first.  The head of the list is
  the match \<open>re\<close> reports.  An iteration of a repetition that consumes nothing is not
  repeated.  \<open>WordB W\<close> is \<open>\b\<close> for the word characters \<open>W\<close>.
\<close>

datatype regex =
    Class "uchar \<Rightarrow> bool"
  | Empty
  | Cat regex regex
  | Or regex regex
  | Star regex
  | LazyStar regex
  | Maybe regex
  | Bol
  | Eol
  | WordB "uchar \<Rightarrow> bool"
  | Ahead regex

type_synonym pos = "uchar option \<times> ustr"

definition shorter :: "pos \<Rightarrow> pos \<Rightarrow> bool" where
  "shorter x y = (length (snd y) < length (snd x))"

fun wordish :: "(uchar \<Rightarrow> bool) \<Rightarrow> uchar option \<Rightarrow> bool" where
  "wordish W None = False"
| "wordish W (Some c) = W c"

fun next_char :: "ustr \<Rightarrow> uchar option" where
  "next_char [] = None"
| "next_char (c # cs) = Some c"

function rmatch :: "regex \<Rightarrow> pos \<Rightarrow> pos list" where
  "rmatch (Class P) (p, []) = []"
| "rmatch (Class P) (p, c # cs) = (if P c then [(Some c, cs)] else [])"
| "rmatch Empty x = [x]"
| "rmatch (Cat a b) x = concat (map (rmatch b) (rmatch a x))"
| "rmatch (Or a b) x = rmatch a x @ rmatch b x"
| "rmatch (Star a) x = concat (map (rmatch (Star a)) (filter (shorter x) (rmatch a x))) @ [x]"
| "rmatch (LazyStar a) x =
     x # concat (map (rmatch (LazyStar a)) (filter (shorter x) (rmatch a x)))"
| "rmatch (Maybe a) x = rmatch a x @ [x]"
| "rmatch Bol (p, cs) = (if p = None then [(p, cs)] else [])"
| "rmatch Eol (p, cs) = (if cs = [] \<or> cs = [newline] then [(p, cs)] else [])"
| "rmatch (WordB W) (p, cs) = (if wordish W p \<noteq> wordish W (next_char cs) then [(p, cs)] else [])"
| "rmatch (Ahead a) x = (if rmatch a x = [] then [] else [x])"
  by pat_completeness auto
termination
  by (relation "measures [\<lambda>(r, x). size r, \<lambda>(r, x). length (snd x)]") (auto simp: shorter_def)

text \<open>The two equations for repetition unfold under any position: they are used on demand.\<close>

declare rmatch.simps(6) [simp del]

declare rmatch.simps(7) [simp del]

text \<open>Pattern syntax: literals, \<open>+\<close>, \<open>{n}\<close>, \<open>{n,}\<close>, \<open>{1,n}\<close>.\<close>

definition chr :: "uchar \<Rightarrow> regex" where
  "chr c = Class ((=) c)"

text \<open>
  A literal under \<open>re.IGNORECASE\<close>.  The matcher compares the simple lower-case mappings of
  the literal and of the character, and for a literal with further case variants it
  accepts those as well.  For the ASCII literals of this program that is: the two ASCII
  cases of a letter; U+0130, whose lower case is \<open>i\<close>, and U+212A, whose lower case is \<open>k\<close>;
  U+0131 for \<open>i\<close> and U+017F for \<open>s\<close>.  No other code point has a lower case in ASCII, and
  \<open>re_lower\<close> leaves every other code point alone, which no ASCII literal can tell from its
  true lower case.
\<close>

definition re_lower :: "uchar \<Rightarrow> uchar" where
  "re_lower c = (if is_AZ c then c + 32 else if c = 304 then 105 else if c = 8490 then 107 else c)"

definition same_letter :: "uchar \<Rightarrow> uchar \<Rightarrow> bool" where
  "same_letter c x =
     (re_lower x = re_lower c \<or> (re_lower c = 105 \<and> x = 305) \<or> (re_lower c = 115 \<and> x = 383))"

definition chr_i :: "uchar \<Rightarrow> regex" where
  "chr_i c = Class (same_letter c)"

primrec lit :: "string \<Rightarrow> regex" where
  "lit [] = Empty"
| "lit (c # cs) = Cat (chr (of_char c)) (lit cs)"

primrec lit_i :: "string \<Rightarrow> regex" where
  "lit_i [] = Empty"
| "lit_i (c # cs) = Cat (chr_i (of_char c)) (lit_i cs)"

definition Plus1 :: "regex \<Rightarrow> regex" where
  "Plus1 a = Cat a (Star a)"

primrec Times :: "nat \<Rightarrow> regex \<Rightarrow> regex" where
  "Times 0 a = Empty"
| "Times (Suc n) a = Cat a (Times n a)"

primrec UpTo :: "nat \<Rightarrow> regex \<Rightarrow> regex" where
  "UpTo 0 a = Empty"
| "UpTo (Suc n) a = Maybe (Cat a (UpTo n a))"

definition AtLeast :: "nat \<Rightarrow> regex \<Rightarrow> regex" where
  "AtLeast n a = Cat (Times n a) (Star a)"

definition Between1 :: "nat \<Rightarrow> regex \<Rightarrow> regex" where
  "Between1 n a = Cat a (UpTo (n - 1) a)"

text \<open>The text between two positions of one string.\<close>

definition span :: "pos \<Rightarrow> pos \<Rightarrow> ustr" where
  "span x y = take (length (snd x) - length (snd y)) (snd x)"

text \<open>
  A pattern with one capturing group is the triple of what stands before the group, the
  group and what stands after it; \<open>rmatch_group\<close> lists the captured text with the end of
  the whole match, in backtracking order.
\<close>

definition rmatch_group :: "regex \<Rightarrow> regex \<Rightarrow> regex \<Rightarrow> pos \<Rightarrow> (ustr \<times> pos) list" where
  "rmatch_group a g b x =
     concat (map (\<lambda>s. concat (map (\<lambda>e. map (\<lambda>f. (span s e, f)) (rmatch b e)) (rmatch g s)))
       (rmatch a x))"

text \<open>\<open>re.search\<close>: the first start position, left to right, with a match.\<close>

fun search_from :: "regex \<Rightarrow> pos \<Rightarrow> (pos \<times> pos) option" where
  "search_from r (p, []) =
     (case rmatch r (p, []) of [] \<Rightarrow> None | e # _ \<Rightarrow> Some ((p, []), e))"
| "search_from r (p, c # cs) =
     (case rmatch r (p, c # cs) of
        [] \<Rightarrow> search_from r (Some c, cs)
      | e # _ \<Rightarrow> Some ((p, c # cs), e))"

text \<open>\<open>re.search(r, s)\<close> followed by \<open>.group()\<close>\<close>

definition re_search :: "regex \<Rightarrow> ustr \<Rightarrow> ustr option" where
  "re_search r s = map_option (\<lambda>(x, y). span x y) (search_from r (None, s))"

text \<open>\<open>re.match(r, s)\<close> as a truth value\<close>

definition re_match :: "regex \<Rightarrow> ustr \<Rightarrow> bool" where
  "re_match r s = (rmatch r (None, s) \<noteq> [])"

text \<open>\<open>re.search(r, s)\<close> followed by \<open>.group(1)\<close>\<close>

fun search_group_from :: "regex \<Rightarrow> regex \<Rightarrow> regex \<Rightarrow> pos \<Rightarrow> ustr option" where
  "search_group_from a g b (p, []) =
     (case rmatch_group a g b (p, []) of [] \<Rightarrow> None | (t, _) # _ \<Rightarrow> Some t)"
| "search_group_from a g b (p, c # cs) =
     (case rmatch_group a g b (p, c # cs) of
        [] \<Rightarrow> search_group_from a g b (Some c, cs)
      | (t, _) # _ \<Rightarrow> Some t)"

definition re_search_group :: "regex \<Rightarrow> regex \<Rightarrow> regex \<Rightarrow> ustr \<Rightarrow> ustr option" where
  "re_search_group a g b s = search_group_from a g b (None, s)"

text \<open>
  \<open>re.sub(r, rep, s)\<close>: scan left to right, replace each match and go on behind it.  After
  an empty match the character at the cursor is copied.
\<close>

function sub_from :: "regex \<Rightarrow> ustr \<Rightarrow> pos \<Rightarrow> ustr" where
  "sub_from r rep (p, cs) =
     (case rmatch r (p, cs) of
        [] \<Rightarrow> (case cs of [] \<Rightarrow> [] | c # cs' \<Rightarrow> c # sub_from r rep (Some c, cs'))
      | e # _ \<Rightarrow>
          if shorter (p, cs) e then rep @ sub_from r rep e
          else rep @ (case cs of [] \<Rightarrow> [] | c # cs' \<Rightarrow> c # sub_from r rep (Some c, cs')))"
  by pat_completeness auto
termination
  by (relation "measure (\<lambda>(r, rep, x). length (snd x))") (auto simp: shorter_def)

declare sub_from.simps [simp del]

definition re_sub :: "regex \<Rightarrow> ustr \<Rightarrow> ustr \<Rightarrow> ustr" where
  "re_sub r rep s = sub_from r rep (None, s)"

text \<open>\<open>re.findall(r, s)\<close> for a pattern without a group: the matched texts.\<close>

function findall_from :: "regex \<Rightarrow> pos \<Rightarrow> ustr list" where
  "findall_from r (p, cs) =
     (case rmatch r (p, cs) of
        [] \<Rightarrow> (case cs of [] \<Rightarrow> [] | c # cs' \<Rightarrow> findall_from r (Some c, cs'))
      | e # _ \<Rightarrow>
          if shorter (p, cs) e then span (p, cs) e # findall_from r e
          else [] # (case cs of [] \<Rightarrow> [] | c # cs' \<Rightarrow> findall_from r (Some c, cs')))"
  by pat_completeness auto
termination
  by (relation "measure (\<lambda>(r, x). length (snd x))") (auto simp: shorter_def)

declare findall_from.simps [simp del]

definition re_findall :: "regex \<Rightarrow> ustr \<Rightarrow> ustr list" where
  "re_findall r s = findall_from r (None, s)"

text \<open>\<open>re.findall(r, s)\<close> for a pattern with one group: the captured texts.\<close>

function findall_group_from :: "regex \<Rightarrow> regex \<Rightarrow> regex \<Rightarrow> pos \<Rightarrow> ustr list" where
  "findall_group_from a g b (p, cs) =
     (case rmatch_group a g b (p, cs) of
        [] \<Rightarrow> (case cs of [] \<Rightarrow> [] | c # cs' \<Rightarrow> findall_group_from a g b (Some c, cs'))
      | (t, e) # _ \<Rightarrow>
          if shorter (p, cs) e then t # findall_group_from a g b e
          else t # (case cs of [] \<Rightarrow> [] | c # cs' \<Rightarrow> findall_group_from a g b (Some c, cs')))"
  by pat_completeness auto
termination
  by (relation "measure (\<lambda>(a, g, b, x). length (snd x))") (auto simp: shorter_def)

declare findall_group_from.simps [simp del]

definition re_findall_group :: "regex \<Rightarrow> regex \<Rightarrow> regex \<Rightarrow> ustr \<Rightarrow> ustr list" where
  "re_findall_group a g b s = findall_group_from a g b (None, s)"

section \<open>The resume parser\<close>

subsection \<open>Data model\<close>

text \<open>
  The parser returns a dictionary with fixed keys.  The keys \<open>certifications\<close>,
  \<open>achievements\<close> and \<open>extracurricular\<close> and the metadata entry \<open>total_characters\<close> exist only
  in the result of the single-line parser, \<open>total_lines\<close> only in that of the multi-line
  one: an absent key is \<open>None\<close>.
\<close>

record contact_info =
  email :: "ustr option"
  phone :: "ustr option"
  linkedin :: "ustr option"

record metadata =
  total_lines :: "nat option"
  total_characters :: "nat option"
  sections_found :: "string list"
  contact_info_found :: bool

record ParsedResume =
  contact :: contact_info
  education :: "ustr list"
  experience :: "ustr list"
  projects :: "ustr list"
  skills :: "ustr list"
  certifications :: "ustr list option"
  achievements :: "ustr list option"
  extracurricular :: "ustr list option"
  raw_text :: ustr
  metadata :: metadata

text \<open>The exceptions an index or an unpacking can raise.\<close>

datatype error = IndexError | ValueError

text \<open>\<open>xs[1]\<close>\<close>

definition index1 :: "'a list \<Rightarrow> error + 'a" where
  "index1 xs = (case xs of x # y # _ \<Rightarrow> Inr y | _ \<Rightarrow> Inl IndexError)"

text \<open>\<open>a, b = xs\<close>\<close>

definition unpack2 :: "'a list \<Rightarrow> error + 'a \<times> 'a" where
  "unpack2 xs = (case xs of [a, b] \<Rightarrow> Inr (a, b) | _ \<Rightarrow> Inl ValueError)"

subsection \<open>\<open>clean_line\<close>\<close>

definition ws_run :: regex where
  "ws_run = Plus1 (Class is_space)"

text \<open>\<open>[^\w\s\.\-\+\&\@\#\(\)]\<close>\<close>

definition is_special :: "unicode_data \<Rightarrow> uchar \<Rightarrow> bool" where
  "is_special U c = (\<not> (is_word U c \<or> is_space c \<or> c \<in> set (u ''.-+&@#()'')))"

definition special_char :: "unicode_data \<Rightarrow> regex" where
  "special_char U = Class (is_special U)"

definition clean_line :: "unicode_data \<Rightarrow> ustr \<Rightarrow> ustr" where
  "clean_line U line = strip (re_sub (special_char U) [] (re_sub ws_run (u '' '') line))"

subsection \<open>\<open>is_section_header\<close>\<close>

definition section_headers :: "ustr list" where
  "section_headers = map u
     [''education'', ''experience'', ''skills'', ''projects'', ''work'', ''employment'',
      ''academic'', ''qualifications'', ''certifications'', ''languages'', ''interests'',
      ''achievements'', ''awards'', ''publications'', ''references'', ''contact'']"

text \<open>\<open>^[A-Z][A-Z\s]+$\<close>\<close>

definition caps_or_space :: "uchar \<Rightarrow> bool" where
  "caps_or_space c = (is_AZ c \<or> is_space c)"

definition caps_header :: regex where
  "caps_header = Cat Bol (Cat (Class is_AZ) (Cat (Plus1 (Class caps_or_space)) Eol))"

definition is_section_header :: "unicode_data \<Rightarrow> ustr \<Rightarrow> bool" where
  "is_section_header U line =
     (let line_clean = strip line in
      if lower_str U line_clean \<in> set section_headers then True
      else if length (split_ws line_clean) \<le> 4
        then (if isupper U line_clean \<or> re_match caps_header line_clean then True else False)
      else False)"

subsection \<open>\<open>extract_section_advanced\<close> and \<open>extract_section_simple\<close>\<close>

text \<open>
  Both loops carry the flag \<open>found_section\<close>; \<open>continue\<close> is the recursive call on the rest,
  \<open>break\<close> ends the list.
\<close>

fun advanced_loop :: "unicode_data \<Rightarrow> ustr list \<Rightarrow> bool \<Rightarrow> ustr list \<Rightarrow> ustr list" where
  "advanced_loop U section_keywords found_section [] = []"
| "advanced_loop U section_keywords found_section (line # lines) =
     (let line_lower = strip (lower_str U line) in
      if list_ex (\<lambda>keyword. contains keyword line_lower) section_keywords
        then advanced_loop U section_keywords True lines
      else if found_section then
        (if is_section_header U line then []
         else if strip line \<noteq> [] then strip line # advanced_loop U section_keywords found_section lines
         else advanced_loop U section_keywords found_section lines)
      else advanced_loop U section_keywords found_section lines)"

definition extract_section_advanced :: "unicode_data \<Rightarrow> ustr list \<Rightarrow> ustr list \<Rightarrow> ustr list" where
  "extract_section_advanced U lines section_keywords =
     map (clean_line U)
       (filter (\<lambda>line. strip line \<noteq> []) (advanced_loop U section_keywords False lines))"

definition variations :: "unicode_data \<Rightarrow> ustr \<Rightarrow> ustr list" where
  "variations U section_name =
     [upper_str U section_name, title U section_name, lower_str U section_name,
      upper_str U section_name @ u ''S'', title U section_name @ u ''S'']"

fun simple_loop :: "unicode_data \<Rightarrow> ustr list \<Rightarrow> bool \<Rightarrow> ustr list \<Rightarrow> ustr list" where
  "simple_loop U vars found_section [] = []"
| "simple_loop U vars found_section (line # lines) =
     (let line_clean = strip line in
      if list_ex (\<lambda>var. contains var line_clean) vars
        then simple_loop U vars True lines
      else if found_section then
        (if is_section_header U line then []
         else if line_clean \<noteq> [] then line_clean # simple_loop U vars found_section lines
         else simple_loop U vars found_section lines)
      else simple_loop U vars found_section lines)"

definition extract_section_simple :: "unicode_data \<Rightarrow> ustr list \<Rightarrow> ustr \<Rightarrow> ustr list" where
  "extract_section_simple U lines section_name =
     simple_loop U (variations U section_name) False lines"

subsection \<open>\<open>extract_skill_terms\<close> and \<open>clean_skill\<close>\<close>

text \<open>
  \<open>\b[A-Z][a-z]+(?:\s+[A-Z][a-z]+)*\b\<close>, \<open>\b[A-Z]{2,}\b\<close>, \<open>\b[a-z]+\.[a-z]+\b\<close> and
  \<open>\b[A-Z][a-z]+\s+[A-Z][a-z]+\b\<close>
\<close>

definition cap_word :: regex where
  "cap_word = Cat (Class is_AZ) (Plus1 (Class is_az))"

definition word_boundary :: "unicode_data \<Rightarrow> regex" where
  "word_boundary U = WordB (is_word U)"

definition skill_patterns :: "unicode_data \<Rightarrow> regex list" where
  "skill_patterns U =
     [Cat (word_boundary U) (Cat cap_word (Cat (Star (Cat ws_run cap_word)) (word_boundary U))),
      Cat (word_boundary U) (Cat (AtLeast 2 (Class is_AZ)) (word_boundary U)),
      Cat (word_boundary U) (Cat (Plus1 (Class is_az)) (Cat (chr 46) (Cat (Plus1 (Class is_az))
        (word_boundary U)))),
      Cat (word_boundary U) (Cat cap_word (Cat ws_run (Cat cap_word (word_boundary U))))]"

definition extract_skill_terms :: "unicode_data \<Rightarrow> ustr \<Rightarrow> ustr list" where
  "extract_skill_terms U text =
     concat (map (\<lambda>pattern. re_findall pattern text) (skill_patterns U))"

text \<open>
  \<open>^(and|or|&)\s+\<close> and \<open>\s+(and|or|&)$\<close>, both case-insensitive, then \<open>\s+\d+\.?\d*\<close>,
  \<open>\s+\d{4}\<close> and \<open>\s+\<close>
\<close>

definition conjunction :: regex where
  "conjunction = Or (lit_i ''and'') (Or (lit_i ''or'') (lit_i ''&''))"

definition leading_conj :: regex where
  "leading_conj = Cat Bol (Cat conjunction ws_run)"

definition trailing_conj :: regex where
  "trailing_conj = Cat ws_run (Cat conjunction Eol)"

definition version_number :: "unicode_data \<Rightarrow> regex" where
  "version_number U =
     Cat ws_run (Cat (Plus1 (Class (is_digit U))) (Cat (Maybe (chr 46)) (Star (Class (is_digit U)))))"

definition year_number :: "unicode_data \<Rightarrow> regex" where
  "year_number U = Cat ws_run (Times 4 (Class (is_digit U)))"

definition clean_skill :: "unicode_data \<Rightarrow> ustr \<Rightarrow> ustr" where
  "clean_skill U skill =
     strip (re_sub ws_run (u '' '')
       (re_sub (year_number U) []
         (re_sub (version_number U) []
           (re_sub trailing_conj []
             (re_sub leading_conj [] skill)))))"

subsection \<open>\<open>extract_skills_advanced\<close>\<close>

text \<open>
  The source collects the candidates in a \<open>set\<close> and then iterates over it.  The order of
  that iteration depends on the hashes of the strings; it is the parameter \<open>set_iter\<close>,
  which maps the sequence of insertions to the sequence the loop sees.
\<close>

definition separators_advanced :: "uchar list" where
  "separators_advanced = [44, 59, 124, 8226, 183, 9642, 9643, 9702, 8227, 8259]"

definition split_parts :: "uchar \<Rightarrow> ustr \<Rightarrow> ustr list" where
  "split_parts sep line = map strip (filter (\<lambda>part. strip part \<noteq> []) (split_on sep line))"

definition line_skills :: "unicode_data \<Rightarrow> ustr \<Rightarrow> ustr list" where
  "line_skills U line =
     (case find (\<lambda>sep. sep \<in> set line) separators_advanced of
        Some sep \<Rightarrow> split_parts sep line
      | None \<Rightarrow>
          if length (split_ws line) \<le> 3 then [strip line] else extract_skill_terms U line)"

fun skills_added :: "unicode_data \<Rightarrow> ustr list \<Rightarrow> error + ustr list" where
  "skills_added U [] = Inr []"
| "skills_added U (line # skill_lines) =
     (case (if 58 \<in> set line then index1 (split_once 58 line) else Inr line) of
        Inl e \<Rightarrow> Inl e
      | Inr line' \<Rightarrow>
          (case skills_added U skill_lines of
             Inl e \<Rightarrow> Inl e
           | Inr later \<Rightarrow> Inr (line_skills U line' @ later)))"

definition extract_skills_advanced ::
  "unicode_data \<Rightarrow> (ustr list \<Rightarrow> ustr list) \<Rightarrow> ustr list \<Rightarrow> error + ustr list" where
  "extract_skills_advanced U set_iter skill_lines =
     (case skills_added U skill_lines of
        Inl e \<Rightarrow> Inl e
      | Inr added \<Rightarrow>
          Inr (dedup (filter (\<lambda>skill_clean. skill_clean \<noteq> [] \<and> length skill_clean > 1)
                 (map (clean_skill U) (set_iter added)))))"

subsection \<open>\<open>extract_contact_info\<close>\<close>

text \<open>
  \<open>\b[A-Za-z0-9._%+-]+@[A-Za-z0-9.-]+\.[A-Z|a-z]{2,}\b\<close>,
  \<open>\b\d{3}[-.\s]?\d{3}[-.\s]?\d{4}\b\<close>,
  \<open>\+\d{1,3}[-.\s]?\d{1,4}[-.\s]?\d{1,4}[-.\s]?\d{1,4}\b\<close> and
  \<open>linkedin\.com/in/[A-Za-z0-9-]+\<close>
\<close>

text \<open>\<open>[A-Za-z0-9]\<close>\<close>

definition is_alnum :: "uchar \<Rightarrow> bool" where
  "is_alnum c = (is_AZ c \<or> is_az c \<or> is_09 c)"

definition email_local :: "uchar \<Rightarrow> bool" where
  "email_local c = (is_alnum c \<or> c \<in> set (u ''._%+-''))"

definition email_domain :: "uchar \<Rightarrow> bool" where
  "email_domain c = (is_alnum c \<or> c \<in> set (u ''.-''))"

definition email_tld :: "uchar \<Rightarrow> bool" where
  "email_tld c = (is_AZ c \<or> c = 124 \<or> is_az c)"

definition email_pattern :: "unicode_data \<Rightarrow> regex" where
  "email_pattern U =
     Cat (word_boundary U) (Cat (Plus1 (Class email_local))
       (Cat (chr 64) (Cat (Plus1 (Class email_domain))
         (Cat (chr 46) (Cat (AtLeast 2 (Class email_tld)) (word_boundary U))))))"

definition is_phone_sep :: "uchar \<Rightarrow> bool" where
  "is_phone_sep c = (c = 45 \<or> c = 46 \<or> is_space c)"

definition phone_sep :: regex where
  "phone_sep = Maybe (Class is_phone_sep)"

definition digit :: "unicode_data \<Rightarrow> regex" where
  "digit U = Class (is_digit U)"

definition phone_patterns :: "unicode_data \<Rightarrow> regex list" where
  "phone_patterns U =
     [Cat (word_boundary U) (Cat (Times 3 (digit U)) (Cat phone_sep (Cat (Times 3 (digit U))
        (Cat phone_sep (Cat (Times 4 (digit U)) (word_boundary U)))))),
      Cat (chr 43) (Cat (Between1 3 (digit U)) (Cat phone_sep
        (Cat (Between1 4 (digit U)) (Cat phone_sep (Cat (Between1 4 (digit U))
          (Cat phone_sep (Cat (Between1 4 (digit U)) (word_boundary U))))))))]"

definition handle_char :: "uchar \<Rightarrow> bool" where
  "handle_char c = (is_alnum c \<or> c = 45)"

definition linkedin_pattern :: regex where
  "linkedin_pattern = Cat (lit ''linkedin.com/in/'') (Plus1 (Class handle_char))"

fun first_match :: "regex list \<Rightarrow> ustr \<Rightarrow> ustr option" where
  "first_match [] text = None"
| "first_match (pattern # patterns) text =
     (case re_search pattern text of Some t \<Rightarrow> Some t | None \<Rightarrow> first_match patterns text)"

definition extract_contact_info :: "unicode_data \<Rightarrow> ustr \<Rightarrow> contact_info" where
  "extract_contact_info U text =
     \<lparr> email = re_search (email_pattern U) text,
       phone = first_match (phone_patterns U) text,
       linkedin = re_search linkedin_pattern text \<rparr>"

text \<open>\<open>bool(contact_info)\<close>\<close>

definition contact_nonempty :: "contact_info \<Rightarrow> bool" where
  "contact_nonempty c = (email c \<noteq> None \<or> phone c \<noteq> None \<or> linkedin c \<noteq> None)"

subsection \<open>The extractors of the single-line parser\<close>

definition separators_items :: "uchar list" where
  "separators_items = [44, 59, 124, 38]"

definition extract_skill_items :: "unicode_data \<Rightarrow> ustr \<Rightarrow> ustr list" where
  "extract_skill_items U text =
     (let candidates =
        (case find (\<lambda>sep. sep \<in> set text) separators_items of
           Some sep \<Rightarrow> split_parts sep text
         | None \<Rightarrow>
             if length (split_ws text) \<le> 5 then [strip text] else extract_skill_terms U text)
      in map (clean_skill U) (filter (\<lambda>skill. clean_skill U skill \<noteq> []) candidates))"

fun skills_of_sections :: "unicode_data \<Rightarrow> ustr list \<Rightarrow> error + ustr list" where
  "skills_of_sections U [] = Inr []"
| "skills_of_sections U (section # bullet_sections) =
     (let section' = strip section in
      if section' = [] then skills_of_sections U bullet_sections
      else
        (case (if 58 \<in> set section'
               then (case unpack2 (split_once 58 section') of
                       Inl e \<Rightarrow> Inl e
                     | Inr (category, skills_list) \<Rightarrow> Inr (extract_skill_items U skills_list))
               else Inr (extract_skill_items U section')) of
           Inl e \<Rightarrow> Inl e
         | Inr skill_items \<Rightarrow>
             (case skills_of_sections U bullet_sections of
                Inl e \<Rightarrow> Inl e
              | Inr later \<Rightarrow> Inr (skill_items @ later))))"

definition extract_skills_from_text :: "unicode_data \<Rightarrow> ustr \<Rightarrow> error + ustr list" where
  "extract_skills_from_text U skills_text =
     (case skills_of_sections U (split_on bullet skills_text) of
        Inl e \<Rightarrow> Inl e
      | Inr all_skills \<Rightarrow> Inr (dedup all_skills))"

text \<open>\<open>([A-Z][A-Za-z\s]+)\s*\<close> followed by the section sign, or by \<open>Tools:\<close>\<close>

definition letter_or_space :: "uchar \<Rightarrow> bool" where
  "letter_or_space c = (is_AZ c \<or> is_az c \<or> is_space c)"

definition project_name :: regex where
  "project_name = Cat (Class is_AZ) (Plus1 (Class letter_or_space))"

definition project_patterns :: "(regex \<times> regex \<times> regex) list" where
  "project_patterns =
     [(Empty, project_name, Cat (Star (Class is_space)) (chr 167)),
      (Empty, project_name, Cat (Star (Class is_space)) (lit ''Tools:''))]"

definition extract_projects_from_text :: "ustr \<Rightarrow> ustr list" where
  "extract_projects_from_text projects_text =
     (let matches = concat (map (\<lambda>(a, g, b). re_findall_group a g b projects_text) project_patterns);
          names = filter (\<lambda>name. length name > 3) (map strip matches)
      in dedup
           (if names = []
            then filter (\<lambda>section. section \<noteq> [] \<and> length section > 10)
                   (map strip (split_on bullet projects_text))
            else names))"

definition extract_bullet_points :: "ustr \<Rightarrow> ustr list" where
  "extract_bullet_points text =
     filter (\<lambda>section. section \<noteq> [] \<and> length section > 5) (map strip (split_on bullet text))"

subsection \<open>\<open>parse_resume_single_line\<close>\<close>

text \<open>
  The six patterns are searched with \<open>re.IGNORECASE | re.DOTALL\<close>: the header keyword and
  \<open>\s+\<close>, the group \<open>(.*?)\<close>, and a lookahead for the keywords that end the section or for
  the end of the text (for \<open>extracurricular\<close> the end of the text itself).
\<close>

definition anything :: "uchar \<Rightarrow> bool" where
  "anything c = True"

definition any_char :: regex where
  "any_char = Class anything"

definition header :: "string \<Rightarrow> regex" where
  "header keyword = Cat (lit_i keyword) ws_run"

primrec keyword_or_end :: "string list \<Rightarrow> regex" where
  "keyword_or_end [] = Eol"
| "keyword_or_end (k # ks) = Or (lit_i k) (keyword_or_end ks)"

definition ahead_any :: "string list \<Rightarrow> regex" where
  "ahead_any keywords = Ahead (keyword_or_end keywords)"

definition patterns :: "(string \<times> regex \<times> regex \<times> regex) list" where
  "patterns =
     [(''education'', header ''EDUCATION'', LazyStar any_char,
         ahead_any [''SKILLS'', ''PROJECTS'', ''CERTIFICATIONS'', ''ACHIEVEMENTS'']),
      (''skills'', header ''SKILLS'', LazyStar any_char,
         ahead_any [''PROJECTS'', ''CERTIFICATIONS'', ''ACHIEVEMENTS'']),
      (''projects'', header ''PROJECTS'', LazyStar any_char,
         ahead_any [''CERTIFICATIONS'', ''ACHIEVEMENTS'', ''EXTRACURRICULAR'']),
      (''certifications'', header ''CERTIFICATIONS'', LazyStar any_char,
         ahead_any [''ACHIEVEMENTS'', ''EXTRACURRICULAR'']),
      (''achievements'', header ''ACHIEVEMENTS'', LazyStar any_char,
         ahead_any [''EXTRACURRICULAR'']),
      (''extracurricular'', header ''EXTRACURRICULAR'', LazyStar any_char, Eol)]"

text \<open>The dictionary before the metadata is added.\<close>

record parsed_data =
  pd_contact :: contact_info
  pd_education :: "ustr list"
  pd_experience :: "ustr list"
  pd_projects :: "ustr list"
  pd_skills :: "ustr list"
  pd_certifications :: "ustr list option"
  pd_achievements :: "ustr list option"
  pd_extracurricular :: "ustr list option"
  pd_raw_text :: ustr

text \<open>\<open>parsed_data[section_name] = items\<close>, for the keys of \<open>patterns\<close>\<close>

definition put :: "string \<Rightarrow> ustr list \<Rightarrow> parsed_data \<Rightarrow> parsed_data" where
  "put section_name items d =
     (if section_name = ''education'' then d\<lparr>pd_education := items\<rparr>
      else if section_name = ''experience'' then d\<lparr>pd_experience := items\<rparr>
      else if section_name = ''projects'' then d\<lparr>pd_projects := items\<rparr>
      else if section_name = ''skills'' then d\<lparr>pd_skills := items\<rparr>
      else if section_name = ''certifications'' then d\<lparr>pd_certifications := Some items\<rparr>
      else if section_name = ''achievements'' then d\<lparr>pd_achievements := Some items\<rparr>
      else if section_name = ''extracurricular'' then d\<lparr>pd_extracurricular := Some items\<rparr>
      else d)"

fun extract_sections ::
  "unicode_data \<Rightarrow> (string \<times> regex \<times> regex \<times> regex) list \<Rightarrow> ustr \<Rightarrow> parsed_data \<Rightarrow>
     error + parsed_data" where
  "extract_sections U [] raw d = Inr d"
| "extract_sections U ((section_name, a, g, b) # ps) raw d =
     (case re_search_group a g b raw of
        None \<Rightarrow> extract_sections U ps raw d
      | Some grp \<Rightarrow>
          (let section_content = strip grp in
           if section_name = ''skills'' then
             (case extract_skills_from_text U section_content of
                Inl e \<Rightarrow> Inl e
              | Inr found \<Rightarrow> extract_sections U ps raw (put section_name found d))
           else if section_name = ''projects'' then
             extract_sections U ps raw
               (put section_name (extract_projects_from_text section_content) d)
           else
             extract_sections U ps raw
               (put section_name (extract_bullet_points section_content) d)))"

text \<open>
  \<open>parsed_data.items()\<close> as far as the metadata read it: every key, in insertion order,
  with the truth value of its entry.
\<close>

fun opt_item :: "string \<Rightarrow> ustr list option \<Rightarrow> (string \<times> bool) list" where
  "opt_item k None = []"
| "opt_item k (Some v) = [(k, v \<noteq> [])]"

definition dict_items :: "parsed_data \<Rightarrow> (string \<times> bool) list" where
  "dict_items d =
     [(''contact'', contact_nonempty (pd_contact d)),
      (''education'', pd_education d \<noteq> []),
      (''experience'', pd_experience d \<noteq> []),
      (''projects'', pd_projects d \<noteq> []),
      (''skills'', pd_skills d \<noteq> [])]
     @ opt_item ''certifications'' (pd_certifications d)
     @ opt_item ''achievements'' (pd_achievements d)
     @ opt_item ''extracurricular'' (pd_extracurricular d)
     @ [(''raw_text'', pd_raw_text d \<noteq> [])]"

definition with_metadata :: "parsed_data \<Rightarrow> metadata \<Rightarrow> ParsedResume" where
  "with_metadata d md =
     \<lparr> contact = pd_contact d, education = pd_education d, experience = pd_experience d,
       projects = pd_projects d, skills = pd_skills d, certifications = pd_certifications d,
       achievements = pd_achievements d, extracurricular = pd_extracurricular d,
       raw_text = pd_raw_text d, metadata = md \<rparr>"

definition parse_resume_single_line :: "unicode_data \<Rightarrow> ustr \<Rightarrow> error + ParsedResume" where
  "parse_resume_single_line U raw =
     (let contact_info = extract_contact_info U raw;
          parsed_data =
            \<lparr> pd_contact = contact_info, pd_education = [], pd_experience = [],
              pd_projects = [], pd_skills = [], pd_certifications = Some [],
              pd_achievements = Some [], pd_extracurricular = Some [], pd_raw_text = raw \<rparr>
      in case extract_sections U patterns raw parsed_data of
           Inl e \<Rightarrow> Inl e
         | Inr d \<Rightarrow>
             Inr (with_metadata d
               \<lparr> total_lines = None,
                 total_characters = Some (length raw),
                 sections_found =
                   map fst (filter (\<lambda>(k, v). v \<and> k \<notin> set [''contact'', ''raw_text'', ''metadata''])
                     (dict_items d)),
                 contact_info_found = contact_nonempty contact_info \<rparr>))"

subsection \<open>\<open>parse_resume_enhanced\<close> and \<open>parse_resume\<close>\<close>

definition section_or_fallback ::
  "unicode_data \<Rightarrow> ustr list \<Rightarrow> string \<Rightarrow> string list \<Rightarrow> ustr list" where
  "section_or_fallback U lines section_name keywords =
     (let section = extract_section_simple U lines (u section_name) in
      if section = [] then extract_section_advanced U lines (map u keywords) else section)"

definition parse_resume_enhanced ::
  "unicode_data \<Rightarrow> (ustr list \<Rightarrow> ustr list) \<Rightarrow> ustr \<Rightarrow> error + ParsedResume" where
  "parse_resume_enhanced U set_iter raw =
     (if length (split_on newline raw) \<le> 3 then parse_resume_single_line U raw
      else
        (let lines = map strip (filter (\<lambda>line. strip line \<noteq> []) (split_on newline raw));
             contact_info = extract_contact_info U raw;
             education' = section_or_fallback U lines ''EDUCATION''
               [''education'', ''academic'', ''qualifications'', ''degree'', ''university'', ''college''];
             experience' = section_or_fallback U lines ''EXPERIENCE''
               [''experience'', ''work'', ''employment'', ''career'', ''professional''];
             projects' = section_or_fallback U lines ''PROJECTS''
               [''projects'', ''project'', ''portfolio'', ''works'', ''achievements''];
             skills_section = section_or_fallback U lines ''SKILLS''
               [''skills'', ''technical skills'', ''technologies'', ''programming'', ''languages'',
                ''tools'']
         in case extract_skills_advanced U set_iter skills_section of
              Inl e \<Rightarrow> Inl e
            | Inr skills' \<Rightarrow>
                Inr \<lparr> contact = contact_info, education = education', experience = experience',
                      projects = projects', skills = skills', certifications = None,
                      achievements = None, extracurricular = None, raw_text = raw,
                      metadata =
                        \<lparr> total_lines = Some (length lines),
                          total_characters = None,
                          sections_found =
                            map fst (filter (\<lambda>(k, v). v \<noteq> [])
                              [(''education'', education'), (''experience'', experience'),
                               (''projects'', projects'), (''skills'', skills')]),
                          contact_info_found = contact_nonempty contact_info \<rparr> \<rparr>))"

definition parse_resume ::
  "unicode_data \<Rightarrow> (ustr list \<Rightarrow> ustr list) \<Rightarrow> ustr \<Rightarrow> error + ParsedResume" where
  "parse_resume U set_iter raw = parse_resume_enhanced U set_iter raw"

subsection \<open>\<open>analyze_resume_quality\<close>\<close>

text \<open>
  The score is the float \<open>(found_sections / 4) * 100\<close>.  A quarter and its product with a
  hundred are exact in binary floating point, so the score is modelled as the real number.
\<close>

record analysis =
  completeness_score :: real
  missing_sections :: "string list"
  recommendations :: "string list"
  strengths :: "string list"

definition check_section :: "bool \<Rightarrow> string \<Rightarrow> string \<Rightarrow> nat \<times> analysis \<Rightarrow> nat \<times> analysis" where
  "check_section present strength name st =
     (case st of (found_sections, a) \<Rightarrow>
        if present then (found_sections + 1, a\<lparr>strengths := strengths a @ [strength]\<rparr>)
        else (found_sections, a\<lparr>missing_sections := missing_sections a @ [name]\<rparr>))"

definition recommend :: "bool \<Rightarrow> string \<Rightarrow> analysis \<Rightarrow> analysis" where
  "recommend cond advice a = (if cond then a\<lparr>recommendations := recommendations a @ [advice]\<rparr> else a)"

definition analyze_resume_quality :: "ParsedResume \<Rightarrow> analysis" where
  "analyze_resume_quality parsed_data =
     (let total_sections = 4;
          start = (0, \<lparr> completeness_score = 0, missing_sections = [], recommendations = [],
                        strengths = [] \<rparr>);
          st1 = check_section (education parsed_data \<noteq> []) ''Education information found''
                  ''Education'' start;
          st2 = check_section (experience parsed_data \<noteq> []) ''Work experience found''
                  ''Experience'' st1;
          st3 = check_section (projects parsed_data \<noteq> []) ''Project portfolio found''
                  ''Projects'' st2;
          st4 = check_section (skills parsed_data \<noteq> [])
                  (''Skills found ('' @ str_of_nat (length (skills parsed_data)) @ '' skills)'')
                  ''Skills'' st3;
          a1 = (snd st4)\<lparr>completeness_score := (real (fst st4) / total_sections) * 100\<rparr>;
          a2 = recommend (completeness_score a1 < 75)
                 ''Consider adding missing sections to improve resume completeness'' a1;
          a3 = recommend (length (skills parsed_data) < 5)
                 ''Add more technical skills to showcase your capabilities'' a2;
          a4 = recommend (length (projects parsed_data) < 2)
                 ''Include more projects to demonstrate practical experience'' a3
      in a4)"

section \<open>Notions of the specification\<close>

text \<open>The parsing mode is read off the metadata: only the single-line parser records
  \<open>total_characters\<close>.\<close>

definition single_line_mode :: "ParsedResume \<Rightarrow> bool" where
  "single_line_mode r = (total_characters (metadata r) \<noteq> None)"

text \<open>The section keys of the result and the lookup of one of them in the dictionary.\<close>

definition section_keys :: "string list" where
  "section_keys = [''education'', ''experience'', ''projects'', ''skills'', ''certifications'',
     ''achievements'', ''extracurricular'']"

definition lookup_section :: "ParsedResume \<Rightarrow> string \<Rightarrow> ustr list option" where
  "lookup_section r k =
     (if k = ''education'' then Some (education r)
      else if k = ''experience'' then Some (experience r)
      else if k = ''projects'' then Some (projects r)
      else if k = ''skills'' then Some (skills r)
      else if k = ''certifications'' then certifications r
      else if k = ''achievements'' then achievements r
      else if k = ''extracurricular'' then extracurricular r
      else None)"

text \<open>The section keys whose sequence is present and non-empty.\<close>

definition nonempty_sections :: "ParsedResume \<Rightarrow> string list" where
  "nonempty_sections r =
     filter (\<lambda>k. case lookup_section r k of Some v \<Rightarrow> v \<noteq> [] | None \<Rightarrow> False) section_keys"

text \<open>The result the specification expects for the empty text.\<close>

definition empty_resume :: ParsedResume where
  "empty_resume =
     \<lparr> contact = \<lparr> email = None, phone = None, linkedin = None \<rparr>,
       education = [], experience = [], projects = [], skills = [],
       certifications = Some [], achievements = Some [], extracurricular = Some [],
       raw_text = [],
       metadata = \<lparr> total_lines = None, total_characters = Some 0, sections_found = [],
                    contact_info_found = False \<rparr> \<rparr>"

text \<open>
  The count behind the completeness score and the readable names of the empty core
  sections, as the specification words them.
\<close>

definition core_found :: "ParsedResume \<Rightarrow> nat" where
  "core_found r =
     length (filter (\<lambda>xs. xs \<noteq> []) [education r, experience r, projects r, skills r])"

definition missing_names :: "ParsedResume \<Rightarrow> string list" where
  "missing_names r =
     map fst (filter (\<lambda>(name, xs). xs = [])
       [(''Education'', education r), (''Experience'', experience r),
        (''Projects'', projects r), (''Skills'', skills r)])"

definition advice_sections :: string where
  "advice_sections = ''Consider adding missing sections to improve resume completeness''"

definition advice_skills :: string where
  "advice_skills = ''Add more technical skills to showcase your capabilities''"

definition advice_projects :: string where
  "advice_projects = ''Include more projects to demonstrate practical experience''"

text \<open>The lines that are not blank, as the multi-line parser keeps them.\<close>

definition nonblank_lines :: "ustr \<Rightarrow> ustr list" where
  "nonblank_lines raw = filter (\<lambda>line. strip line \<noteq> []) (split_on newline raw)"



text \<open>
  Order of first occurrence: \<open>ys\<close> holds every member of \<open>xs\<close> once, and a member whose
  first occurrence in \<open>xs\<close> is earlier stands earlier in \<open>ys\<close>.
\<close>

fun first_pos :: "'a \<Rightarrow> 'a list \<Rightarrow> nat" where
  "first_pos x [] = 0"
| "first_pos x (y # ys) = (if x = y then 0 else Suc (first_pos x ys))"


text \<open>Texts used below.\<close>

definition text_blank_lines :: ustr where
  "text_blank_lines = u ''A'' @ [newline, newline, newline, newline] @ u ''B''"

definition text_abc :: ustr where
  "text_abc = u ''A'' @ [newline] @ u ''B'' @ [newline] @ u ''C''"

definition text_abcd :: ustr where
  "text_abcd = u ''A'' @ [newline] @ u ''B'' @ [newline] @ u ''C'' @ [newline] @ u ''D''"

definition text_academic :: ustr where
  "text_academic =
     u ''Academic Background'' @ [newline] @ u ''***'' @ [newline] @ u ''x'' @ [newline] @ u ''y''"



definition text_go_rust_lines :: ustr where
  "text_go_rust_lines =
     u ''SKILLS'' @ [newline] @ u ''Go, Rust'' @ [newline] @ u ''A'' @ [newline] @ u ''B''"

section \<open>The section cut of the single-line parser, in words\<close>

text \<open>
  The content the single-line loop computes for a section: the group of the first match
  of that section's pattern, stripped; \<open>None\<close> when the pattern does not match.
\<close>

definition section_content :: "string \<Rightarrow> ustr \<Rightarrow> ustr option" where
  "section_content section_name raw =
     (case find (\<lambda>(n, a, g, b). n = section_name) patterns of
        None \<Rightarrow> None
      | Some (n, a, g, b) \<Rightarrow> map_option strip (re_search_group a g b raw))"


text \<open>The chain of header keywords and the keyword of every section.\<close>

definition chain :: "string list" where
  "chain = [''EDUCATION'', ''SKILLS'', ''PROJECTS'', ''CERTIFICATIONS'', ''ACHIEVEMENTS'',
     ''EXTRACURRICULAR'']"

definition later_keywords :: "string \<Rightarrow> string list" where
  "later_keywords kw = tl (dropWhile (\<lambda>k. k \<noteq> kw) chain)"

definition section_keywords :: "(string \<times> string) list" where
  "section_keywords =
     [(''education'', ''EDUCATION''), (''skills'', ''SKILLS''), (''projects'', ''PROJECTS''),
      (''certifications'', ''CERTIFICATIONS''), (''achievements'', ''ACHIEVEMENTS''),
      (''extracurricular'', ''EXTRACURRICULAR'')]"

text \<open>
  A keyword stands at the head of a text, letter case ignored as \<open>re.IGNORECASE\<close> ignores
  it; it occurs in a text.
\<close>

fun starts_with_i :: "string \<Rightarrow> ustr \<Rightarrow> bool" where
  "starts_with_i [] cs = True"
| "starts_with_i (k # ks) [] = False"
| "starts_with_i (k # ks) (c # cs) = (same_letter (of_char k) c \<and> starts_with_i ks cs)"

definition at_keyword :: "string list \<Rightarrow> ustr \<Rightarrow> bool" where
  "at_keyword stops cs = list_ex (\<lambda>k. starts_with_i k cs) stops"

text \<open>The text up to the first place where \<open>stop\<close> holds of what remains.\<close>

fun lazy_until :: "(ustr \<Rightarrow> bool) \<Rightarrow> ustr \<Rightarrow> ustr" where
  "lazy_until stop [] = []"
| "lazy_until stop (c # cs) = (if stop (c # cs) then [] else c # lazy_until stop cs)"

definition up_to_keyword :: "string list \<Rightarrow> ustr \<Rightarrow> ustr" where
  "up_to_keyword stops text = lazy_until (at_keyword stops) text"

text \<open>
  The claim as the specification words it: the text just after the first occurrence of the
  header keyword, up to the next keyword of the chain or the end.
\<close>

fun text_after_keyword :: "string \<Rightarrow> ustr \<Rightarrow> ustr option" where
  "text_after_keyword kw [] = None"
| "text_after_keyword kw (c # cs) =
     (if starts_with_i kw (c # cs) then Some (drop (length kw) (c # cs))
      else text_after_keyword kw cs)"

definition claimed_content :: "string \<Rightarrow> ustr \<Rightarrow> ustr option" where
  "claimed_content kw raw =
     map_option (\<lambda>t. strip (up_to_keyword (later_keywords kw) t)) (text_after_keyword kw raw)"

text \<open>
  The same with the header as the patterns have it: the keyword counts only where a
  whitespace character follows it.
\<close>

definition header_here :: "string \<Rightarrow> ustr \<Rightarrow> bool" where
  "header_here kw cs =
     (starts_with_i kw cs \<and> (case drop (length kw) cs of [] \<Rightarrow> False | d # _ \<Rightarrow> is_space d))"

fun text_after_header :: "string \<Rightarrow> ustr \<Rightarrow> ustr option" where
  "text_after_header kw [] = None"
| "text_after_header kw (c # cs) =
     (if header_here kw (c # cs) then Some (drop (length kw) (c # cs))
      else text_after_header kw cs)"

definition amended_content :: "string \<Rightarrow> ustr \<Rightarrow> ustr option" where
  "amended_content kw raw =
     map_option (\<lambda>t. strip (up_to_keyword (later_keywords kw) t)) (text_after_header kw raw)"

text \<open>
  The patterns of education and skills do not look for EXTRACURRICULAR, the last keyword of
  the chain.  That matters for a text in which EXTRACURRICULAR begins behind the header
  before any of the keywords begins that the pattern does look for.
\<close>

fun begins_before :: "string \<Rightarrow> string list \<Rightarrow> ustr \<Rightarrow> bool" where
  "begins_before k stops [] = False"
| "begins_before k stops (c # cs) =
     (if at_keyword stops (c # cs) then False
      else starts_with_i k (c # cs) \<or> begins_before k stops cs)"

definition extracurricular_inside :: "string \<Rightarrow> ustr \<Rightarrow> bool" where
  "extracurricular_inside kw raw =
     (case text_after_header kw raw of
        None \<Rightarrow> False
      | Some t \<Rightarrow> begins_before ''EXTRACURRICULAR'' (butlast (later_keywords kw)) t)"

text \<open>
  Notions of the proof about \<open>clean_skill\<close>: what the substitution of \<open>\s+\<close> by one space
  computes, the texts that it leaves alone (every whitespace character is a single space
  between other characters or at the end), a whitespace character followed by a digit, and
  the pattern \<open>\d+\.?\d*\<close> over a digit class.
\<close>

fun collapse_from :: "bool \<Rightarrow> ustr \<Rightarrow> ustr" where
  "collapse_from in_run [] = []"
| "collapse_from in_run (c # cs) =
     (if is_space c then (if in_run then collapse_from True cs else 32 # collapse_from True cs)
      else c # collapse_from False cs)"

fun spaced_ok :: "bool \<Rightarrow> ustr \<Rightarrow> bool" where
  "spaced_ok after_space [] = True"
| "spaced_ok after_space (c # cs) =
     (if is_space c then \<not> after_space \<and> c = 32 \<and> spaced_ok True cs else spaced_ok False cs)"

fun ws_digit :: "(uchar \<Rightarrow> bool) \<Rightarrow> ustr \<Rightarrow> bool" where
  "ws_digit D (a # b # cs) = (is_space a \<and> D b \<or> ws_digit D (b # cs))"
| "ws_digit D [a] = False"
| "ws_digit D [] = False"

definition starts_digit :: "(uchar \<Rightarrow> bool) \<Rightarrow> ustr \<Rightarrow> bool" where
  "starts_digit D t = (case t of [] \<Rightarrow> False | d # _ \<Rightarrow> D d)"

definition version_body :: "(uchar \<Rightarrow> bool) \<Rightarrow> regex" where
  "version_body D = Cat (Plus1 (Class D)) (Cat (Maybe (chr 46)) (Star (Class D)))"

text \<open>Auxiliary notions of the proofs about the matcher.\<close>

fun run_end :: "(uchar \<Rightarrow> bool) \<Rightarrow> pos \<Rightarrow> pos" where
  "run_end P (p, []) = (p, [])"
| "run_end P (p, c # cs) = (if P c then run_end P (Some c, cs) else (p, c # cs))"

definition advance :: "nat \<Rightarrow> pos \<Rightarrow> pos" where
  "advance n x =
     (if take n (snd x) = [] then fst x else Some (last (take n (snd x))), drop n (snd x))"

fun suffixes :: "pos \<Rightarrow> pos list" where
  "suffixes (p, []) = [(p, [])]"
| "suffixes (p, c # cs) = (p, c # cs) # suffixes (Some c, cs)"

definition at_stop :: "string list \<Rightarrow> ustr \<Rightarrow> bool" where
  "at_stop stops cs = (at_keyword stops cs \<or> cs = [] \<or> cs = [newline])"

definition letter_first :: "string \<Rightarrow> bool" where
  "letter_first k = (case k of [] \<Rightarrow> False | c # _ \<Rightarrow> is_AZ (of_char c))"

section \<open>Evaluation rules\<close>

text \<open>
  Concrete inputs are evaluated by rewriting.  The character predicates are unfolded at
  numerals only and the cleaning functions at a constructor only, so that no rule fires on
  a bound variable.  On ASCII text the tables are read through \<open>ascii_ok\<close>.
\<close>

lemma Times_num:
  "Times 2 a = Cat a (Cat a Empty)"
  "Times 3 a = Cat a (Cat a (Cat a Empty))"
  "Times 4 a = Cat a (Cat a (Cat a (Cat a Empty)))"
  by (simp_all add: eval_nat_numeral)

lemma Between1_num:
  "Between1 3 a = Cat a (Maybe (Cat a (Maybe (Cat a Empty))))"
  "Between1 4 a = Cat a (Maybe (Cat a (Maybe (Cat a (Maybe (Cat a Empty))))))"
  by (simp_all add: eval_nat_numeral Between1_def)

lemma ascii_ok_ascii_data: "ascii_ok ascii_data"
  by (simp add: ascii_ok_def ascii_data_def)

lemma ascii_digit: "ascii_ok U \<Longrightarrow> c < 128 \<Longrightarrow> is_digit U c = is_09 c"
  by (simp add: ascii_ok_def is_digit_def)

lemma ascii_word:
  "ascii_ok U \<Longrightarrow> c < 128 \<Longrightarrow> is_word U c = (is_AZ c \<or> is_az c \<or> is_09 c \<or> c = 95)"
  by (simp add: ascii_ok_def is_word_def)

lemma ascii_lower_str: "ascii_ok U \<Longrightarrow> is_ascii s \<Longrightarrow> lower_str U s = map ascii_lower s"
  by (simp add: ascii_ok_def)

lemma ascii_upper_str: "ascii_ok U \<Longrightarrow> is_ascii s \<Longrightarrow> upper_str U s = map ascii_upper s"
  by (simp add: ascii_ok_def)

lemma ascii_title: "ascii_ok U \<Longrightarrow> is_ascii s \<Longrightarrow> title U s = ascii_title_from False s"
  by (simp add: ascii_ok_def)

lemma ascii_isupper: "ascii_ok U \<Longrightarrow> is_ascii s \<Longrightarrow> isupper U s = ascii_isupper s"
  by (simp add: ascii_ok_def)

lemmas table_ev =
  ascii_digit[where c="numeral n" for n] ascii_word[where c="numeral n" for n]
  ascii_lower_str[of _ "[]"] ascii_lower_str[where s="c # cs" for c cs]
  ascii_upper_str[of _ "[]"] ascii_upper_str[where s="c # cs" for c cs]
  ascii_title[of _ "[]"] ascii_title[where s="c # cs" for c cs]
  ascii_isupper[of _ "[]"] ascii_isupper[where s="c # cs" for c cs]
  is_ascii_def ascii_isupper_def

lemmas char_ev =
  is_space_def[where c="numeral n" for n] is_AZ_def[where c="numeral n" for n]
  is_az_def[where c="numeral n" for n] is_09_def[where c="numeral n" for n]
  is_alnum_def[where c="numeral n" for n]
  ascii_lower_def[where c="numeral n" for n] ascii_upper_def[where c="numeral n" for n]
  re_lower_def[where c="numeral n" for n]
  same_letter_def[where c="numeral n" and x="numeral k" for n k]
  is_special_def[where c="numeral n" for n] caps_or_space_def[where c="numeral n" for n]
  email_local_def[where c="numeral n" for n] email_domain_def[where c="numeral n" for n]
  email_tld_def[where c="numeral n" for n] is_phone_sep_def[where c="numeral n" for n]
  handle_char_def[where c="numeral n" for n] letter_or_space_def[where c="numeral n" for n]
  anything_def

lemmas clean_skill_ev = clean_skill_def[of _ "[]"] clean_skill_def[where skill="c # cs" for c cs]

lemmas clean_line_ev = clean_line_def[of _ "[]"] clean_line_def[where line="c # cs" for c cs]

lemmas ev = u_def bullet_def newline_def char_ev table_ev rmatch.simps sub_from.simps
  findall_from.simps findall_group_from.simps
  strip_def split_once_def split_ws_def
  dedup_def shorter_def chr_def chr_i_def Plus1_def AtLeast_def Times_num Between1_num
  span_def rmatch_group_def re_search_def re_match_def re_search_group_def re_sub_def re_findall_def
  re_findall_group_def index1_def unpack2_def ws_run_def special_char_def clean_line_ev
  section_headers_def caps_header_def is_section_header_def extract_section_advanced_def
  variations_def extract_section_simple_def cap_word_def word_boundary_def skill_patterns_def
  extract_skill_terms_def conjunction_def leading_conj_def trailing_conj_def
  version_number_def year_number_def clean_skill_ev separators_advanced_def split_parts_def
  line_skills_def extract_skills_advanced_def email_pattern_def phone_sep_def digit_def
  phone_patterns_def
  linkedin_pattern_def extract_contact_info_def contact_nonempty_def separators_items_def
  extract_skill_items_def extract_skills_from_text_def project_name_def project_patterns_def
  extract_projects_from_text_def extract_bullet_points_def any_char_def header_def ahead_any_def
  patterns_def put_def dict_items_def with_metadata_def parse_resume_single_line_def
  section_or_fallback_def parse_resume_enhanced_def parse_resume_def Let_def
section \<open>No exception is raised\<close>

lemma fromkeys_props: "distinct (fromkeys seen xs) \<and> set (fromkeys seen xs) = set xs - set seen"
  by (induction xs arbitrary: seen) auto

lemma distinct_dedup: "distinct (dedup xs)"
  by (simp add: dedup_def fromkeys_props)

lemma set_dedup: "set (dedup xs) = set xs"
  by (simp add: dedup_def fromkeys_props)

lemma index1_split_once: "sep \<in> set s \<Longrightarrow> \<exists>t. index1 (split_once sep s) = Inr t"
  by (simp add: index1_def split_once_def)

lemma unpack2_split_once: "sep \<in> set s \<Longrightarrow> \<exists>a b. unpack2 (split_once sep s) = Inr (a, b)"
  by (simp add: unpack2_def split_once_def)

lemma skills_added_total: "\<exists>added. skills_added U skill_lines = Inr added"
proof (induction skill_lines)
  case Nil
  show ?case by simp
next
  case (Cons line skill_lines)
  then obtain later where later: "skills_added U skill_lines = Inr later" by blast
  show ?case
  proof (cases "58 \<in> set line")
    case True
    then obtain t where "index1 (split_once 58 line) = Inr t"
      using index1_split_once by blast
    with True later show ?thesis by simp
  next
    case False
    with later show ?thesis by simp
  qed
qed

lemma extract_skills_advanced_total:
  "\<exists>found. extract_skills_advanced U set_iter skill_lines = Inr found \<and> distinct found"
proof -
  obtain added where "skills_added U skill_lines = Inr added"
    using skills_added_total by blast
  then show ?thesis
    by (simp add: extract_skills_advanced_def distinct_dedup)
qed

lemma skills_of_sections_total: "\<exists>found. skills_of_sections U bullet_sections = Inr found"
proof (induction bullet_sections)
  case Nil
  show ?case by simp
next
  case (Cons sect bullet_sections)
  then obtain later where later: "skills_of_sections U bullet_sections = Inr later" by blast
  show ?case
  proof (cases "58 \<in> set (strip sect)")
    case True
    then obtain a b where "unpack2 (split_once 58 (strip sect)) = Inr (a, b)"
      using unpack2_split_once by blast
    with True later show ?thesis by (simp add: Let_def)
  next
    case False
    with later show ?thesis by (simp add: Let_def)
  qed
qed

lemma extract_skills_from_text_total:
  "\<exists>found. extract_skills_from_text U skills_text = Inr found \<and> distinct found"
proof -
  obtain all_skills where "skills_of_sections U (split_on bullet skills_text) = Inr all_skills"
    using skills_of_sections_total by blast
  then show ?thesis
    by (simp add: extract_skills_from_text_def distinct_dedup)
qed

lemma put_other_skills: "section_name \<noteq> ''skills'' \<Longrightarrow> pd_skills (put section_name v d) = pd_skills d"
  by (simp add: put_def)

lemma put_skills: "pd_skills (put ''skills'' v d) = v"
  by (simp add: put_def)

lemma put_other_experience:
  "section_name \<noteq> ''experience'' \<Longrightarrow> pd_experience (put section_name v d) = pd_experience d"
  by (simp add: put_def)

lemma extract_sections_total:
  "distinct (pd_skills d) \<Longrightarrow> \<exists>d'. extract_sections U ps raw d = Inr d' \<and> distinct (pd_skills d')"
proof (induction ps arbitrary: d)
  case Nil
  then show ?case by simp
next
  case (Cons pat ps)
  obtain section_name a g b where pat: "pat = (section_name, a, g, b)"
    by (cases pat) auto
  show ?case
  proof (cases "re_search_group a g b raw")
    case None
    with pat Cons show ?thesis by simp
  next
    case (Some grp)
    show ?thesis
    proof (cases "section_name = ''skills''")
      case True
      obtain found where found: "extract_skills_from_text U (strip grp) = Inr found" "distinct found"
        using extract_skills_from_text_total by blast
      have "distinct (pd_skills (put section_name found d))"
        using True found by (simp add: put_skills)
      from Cons.IH[OF this] pat Some True found show ?thesis by (simp add: Let_def)
    next
      case False
      have d1: "distinct (pd_skills (put section_name v d))" for v
        using False Cons.prems by (simp add: put_other_skills)
      show ?thesis
      proof (cases "section_name = ''projects''")
        case True
        from Cons.IH[OF d1] pat Some False True show ?thesis by (simp add: Let_def)
      next
        case np: False
        from Cons.IH[OF d1] pat Some False np show ?thesis by (simp add: Let_def)
      qed
    qed
  qed
qed

lemma extract_sections_experience:
  "extract_sections U ps raw d = Inr d' \<Longrightarrow> ''experience'' \<notin> fst ` set ps \<Longrightarrow>
     pd_experience d' = pd_experience d"
proof (induction ps arbitrary: d)
  case Nil
  then show ?case by simp
next
  case (Cons pat ps)
  obtain section_name a g b where pat: "pat = (section_name, a, g, b)"
    by (cases pat) auto
  from Cons.prems(2) pat have ne: "section_name \<noteq> ''experience''" and rest: "''experience'' \<notin> fst ` set ps"
    by auto
  have step: "extract_sections U ps raw (put section_name v d) = Inr d' \<Longrightarrow> pd_experience d' = pd_experience d" for v
    using Cons.IH[OF _ rest, of "put section_name v d"] ne by (simp add: put_other_experience)
  show ?case
  proof (cases "re_search_group a g b raw")
    case None
    with Cons.prems(1) pat Cons.IH[OF _ rest] show ?thesis by simp
  next
    case (Some grp)
    show ?thesis
    proof (cases "section_name = ''skills''")
      case True
      obtain found where found: "extract_skills_from_text U (strip grp) = Inr found"
        using extract_skills_from_text_total by blast
      with Cons.prems(1) pat Some True show ?thesis
        by (simp add: Let_def step)
    next
      case False
      with Cons.prems(1) pat Some show ?thesis
        by (simp add: Let_def step split: if_splits)
    qed
  qed
qed

lemma parse_single_total:
  "\<exists>r. parse_resume_single_line U raw = Inr r \<and> distinct (skills r)"
proof -
  let ?d = "\<lparr> pd_contact = extract_contact_info U raw, pd_education = [], pd_experience = [],
              pd_projects = [], pd_skills = [], pd_certifications = Some [],
              pd_achievements = Some [], pd_extracurricular = Some [], pd_raw_text = raw \<rparr>"
  have "distinct (pd_skills ?d)" by simp
  from extract_sections_total[OF this, of U patterns raw]
  obtain d' where "extract_sections U patterns raw ?d = Inr d'" "distinct (pd_skills d')" by blast
  then show ?thesis
    by (simp add: parse_resume_single_line_def Let_def with_metadata_def)
qed

lemma parse_multi_total:
  "\<not> length (split_on newline raw) \<le> 3 \<Longrightarrow>
     \<exists>r. parse_resume_enhanced U set_iter raw = Inr r \<and> distinct (skills r)"
proof -
  assume m: "\<not> length (split_on newline raw) \<le> 3"
  let ?lines = "map strip (filter (\<lambda>line. strip line \<noteq> []) (split_on newline raw))"
  obtain found where
    "extract_skills_advanced U set_iter (section_or_fallback U ?lines ''SKILLS''
       [''skills'', ''technical skills'', ''technologies'', ''programming'', ''languages'', ''tools'']) = Inr found"
    "distinct found"
    using extract_skills_advanced_total by blast
  with m show ?thesis
    by (simp add: parse_resume_enhanced_def Let_def)
qed

lemma parse_total_distinct: "\<exists>r. parse_resume U set_iter raw = Inr r \<and> distinct (skills r)"
proof (cases "length (split_on newline raw) \<le> 3")
  case True
  then show ?thesis
    using parse_single_total[of U raw] by (simp add: parse_resume_def parse_resume_enhanced_def)
next
  case False
  then show ?thesis
    using parse_multi_total[of raw U set_iter] by (simp add: parse_resume_def)
qed

lemma parse_empty: "parse_resume U set_iter [] = Inr empty_resume"
  by (simp add: ev empty_resume_def)

text \<open>
  C1.  \<open>parse_resume\<close> returns a record for every text and every iteration order of the
  skills set: neither the index \<open>[1]\<close> nor the unpacking of a split at a colon can fail,
  since both are guarded by the test that the colon occurs.  For the empty text the result
  has every section empty, no contact entry and no section found.
\<close>

theorem parse_resume_total:
  "(\<exists>r. parse_resume U set_iter raw = Inr r) \<and> parse_resume U set_iter [] = Inr empty_resume"
  using parse_total_distinct[of U set_iter raw] parse_empty by blast

theorem parse_resume_total_witness:
  "(\<exists>r. parse_resume ascii_data dedup (u ''SKILLS: C'') = Inr r) \<and>
   parse_resume ascii_data dedup [] = Inr empty_resume"
  using parse_resume_total[of ascii_data dedup "u ''SKILLS: C''"] by simp

section \<open>Metadata\<close>

lemma eval_skills_go:
  "ascii_ok U \<Longrightarrow>
   map_sum id (\<lambda>r. (skills r, experience r, sections_found (metadata r), single_line_mode r))
     (parse_resume U dedup (u ''SKILLS Go'')) = Inr ([u ''Go''], [], [''skills''], True)"
  by (simp add: ev single_line_mode_def)

lemma filter_step: "filter P (x # xs) = (if P x then [x] else []) @ filter P xs"
  by simp

lemma found_single:
  "map fst (filter (\<lambda>(k, v). v \<and> k \<notin> set [''contact'', ''raw_text'', ''metadata'']) (dict_items d))
     = nonempty_sections (with_metadata d md)"
  by (cases "pd_certifications d"; cases "pd_achievements d"; cases "pd_extracurricular d")
     (simp_all add: nonempty_sections_def section_keys_def lookup_section_def dict_items_def
        with_metadata_def filter_step del: filter.simps)

lemma found_multi:
  "map fst (filter (\<lambda>(k, v). v \<noteq> [])
      [(''education'', e), (''experience'', x), (''projects'', p), (''skills'', s)])
   = nonempty_sections \<lparr> contact = c, education = e, experience = x, projects = p, skills = s,
        certifications = None, achievements = None, extracurricular = None, raw_text = raw,
        metadata = md \<rparr>"
  by (simp add: nonempty_sections_def section_keys_def lookup_section_def filter_step
        del: filter.simps)

text \<open>
  C5.  In both modes \<open>sections_found\<close> lists exactly the section keys that are present in
  the result with a non-empty sequence, in the order of the keys.
\<close>

theorem sections_found_exact:
  "parse_resume U set_iter raw = Inr r \<Longrightarrow> sections_found (metadata r) = nonempty_sections r"
proof (cases "length (split_on newline raw) \<le> 3")
  case True
  assume "parse_resume U set_iter raw = Inr r"
  with True obtain d md where r: "r = with_metadata d md"
    and md: "sections_found md = map fst (filter (\<lambda>(k, v). v \<and> k \<notin> set [''contact'', ''raw_text'', ''metadata''])
                     (dict_items d))"
    by (auto simp: parse_resume_def parse_resume_enhanced_def parse_resume_single_line_def Let_def
             split: sum.splits)
  have "metadata r = md" by (simp add: r with_metadata_def)
  then show ?thesis
    using found_single[of d md] md r by simp
next
  case False
  assume "parse_resume U set_iter raw = Inr r"
  with False show ?thesis
    by (auto simp: parse_resume_def parse_resume_enhanced_def Let_def found_multi
             simp del: filter.simps split: sum.splits)
qed

theorem sections_found_exact_witness:
  "map_sum id (\<lambda>r. (sections_found (metadata r), nonempty_sections r))
     (parse_resume ascii_data dedup (u ''SKILLS Go'')) = Inr ([''skills''], [''skills''])"
proof -
  obtain r where r: "parse_resume ascii_data dedup (u ''SKILLS Go'') = Inr r"
    using parse_total_distinct[of ascii_data dedup "u ''SKILLS Go''"] by blast
  from sections_found_exact[OF r] have "sections_found (metadata r) = nonempty_sections r" .
  with r eval_skills_go[OF ascii_ok_ascii_data] show ?thesis by simp
qed

section \<open>Quality analysis\<close>

lemma advice_distinct:
  "advice_sections \<noteq> advice_skills" "advice_sections \<noteq> advice_projects"
  "advice_skills \<noteq> advice_projects" "advice_skills \<noteq> advice_sections"
  "advice_projects \<noteq> advice_sections" "advice_projects \<noteq> advice_skills"
  by (simp_all add: advice_sections_def advice_skills_def advice_projects_def)

lemma recommend_fields:
  "recommendations (recommend c advice a) = recommendations a @ (if c then [advice] else [])"
  "completeness_score (recommend c advice a) = completeness_score a"
  "missing_sections (recommend c advice a) = missing_sections a"
  "strengths (recommend c advice a) = strengths a"
  by (simp_all add: recommend_def)

lemma check_section_fields:
  "fst (check_section present strength name st) = fst st + (if present then 1 else 0)"
  "strengths (snd (check_section present strength name st))
     = strengths (snd st) @ (if present then [strength] else [])"
  "missing_sections (snd (check_section present strength name st))
     = missing_sections (snd st) @ (if present then [] else [name])"
  "recommendations (snd (check_section present strength name st)) = recommendations (snd st)"
  by (simp_all add: check_section_def split: prod.splits)

lemma analyze_score:
  "completeness_score (analyze_resume_quality r) = real (core_found r) / 4 * 100"
  by (simp add: analyze_resume_quality_def Let_def recommend_fields check_section_fields
        core_found_def)

lemma analyze_missing: "missing_sections (analyze_resume_quality r) = missing_names r"
  by (simp add: analyze_resume_quality_def Let_def recommend_fields check_section_fields
        missing_names_def)

lemma analyze_recommendations:
  "recommendations (analyze_resume_quality r) =
     (if completeness_score (analyze_resume_quality r) < 75 then [advice_sections] else [])
     @ (if length (skills r) < 5 then [advice_skills] else [])
     @ (if length (projects r) < 2 then [advice_projects] else [])"
  unfolding advice_sections_def advice_skills_def advice_projects_def
  by (simp add: analyze_resume_quality_def Let_def recommend_fields check_section_fields
        split del: if_split)

lemma core_found_le: "core_found r \<le> 4"
  by (simp add: core_found_def)

text \<open>
  C7.  \<open>analyze_resume_quality\<close> is a function of the record with no failing branch.  Its
  score is the number of non-empty core sections divided by four, times a hundred, hence
  25 times that number and between 0 and 100; the missing sections are the empty core
  sections by name; each of the three advisory strings is recommended exactly when its
  threshold is undercut.
\<close>

theorem analyze_resume_quality_spec:
  "completeness_score (analyze_resume_quality r) = real (core_found r) / 4 * 100
   \<and> 0 \<le> completeness_score (analyze_resume_quality r)
   \<and> completeness_score (analyze_resume_quality r) \<le> 100
   \<and> completeness_score (analyze_resume_quality r) = 25 * real (core_found r)
   \<and> missing_sections (analyze_resume_quality r) = missing_names r
   \<and> (advice_sections \<in> set (recommendations (analyze_resume_quality r)))
        = (completeness_score (analyze_resume_quality r) < 75)
   \<and> (advice_skills \<in> set (recommendations (analyze_resume_quality r))) = (length (skills r) < 5)
   \<and> (advice_projects \<in> set (recommendations (analyze_resume_quality r)))
        = (length (projects r) < 2)"
  using core_found_le[of r]
  by (simp add: analyze_score analyze_missing analyze_recommendations advice_distinct)

theorem analyze_resume_quality_spec_witness:
  "completeness_score (analyze_resume_quality empty_resume) = 0
   \<and> missing_sections (analyze_resume_quality empty_resume)
        = [''Education'', ''Experience'', ''Projects'', ''Skills'']
   \<and> advice_sections \<in> set (recommendations (analyze_resume_quality empty_resume))
   \<and> advice_skills \<in> set (recommendations (analyze_resume_quality empty_resume))
   \<and> advice_projects \<in> set (recommendations (analyze_resume_quality empty_resume))"
  using analyze_resume_quality_spec[of empty_resume]
  by (simp add: core_found_def missing_names_def empty_resume_def)

section \<open>Mode selection\<close>

lemma length_split_on: "length (split_on sep s) = count_list s sep + 1"
  by (induction s) (auto split: list.splits)

lemma single_line_result:
  "length (split_on newline raw) \<le> 3 \<Longrightarrow> parse_resume U set_iter raw = Inr r \<Longrightarrow>
     \<exists>d md. extract_sections U patterns raw
         \<lparr> pd_contact = extract_contact_info U raw, pd_education = [], pd_experience = [],
           pd_projects = [], pd_skills = [], pd_certifications = Some [],
           pd_achievements = Some [], pd_extracurricular = Some [], pd_raw_text = raw \<rparr> = Inr d
       \<and> r = with_metadata d md \<and> total_characters md = Some (length raw)
       \<and> sections_found md = map fst (filter (\<lambda>(k, v). v \<and> k \<notin> set [''contact'', ''raw_text'', ''metadata''])
                     (dict_items d))"
  by (auto simp: parse_resume_def parse_resume_enhanced_def parse_resume_single_line_def Let_def
           split: sum.splits)

lemma multi_line_result:
  "\<not> length (split_on newline raw) \<le> 3 \<Longrightarrow> parse_resume U set_iter raw = Inr r \<Longrightarrow>
     total_characters (metadata r) = None \<and> total_lines (metadata r) = Some (length (nonblank_lines raw))"
  by (auto simp: parse_resume_def parse_resume_enhanced_def Let_def nonblank_lines_def
           split: sum.splits)

lemma mode_iff:
  "parse_resume U set_iter raw = Inr r \<Longrightarrow> single_line_mode r = (length (split_on newline raw) \<le> 3)"
proof (cases "length (split_on newline raw) \<le> 3")
  case True
  assume "parse_resume U set_iter raw = Inr r"
  from single_line_result[OF True this] True show ?thesis
    by (auto simp: single_line_mode_def with_metadata_def)
next
  case False
  assume "parse_resume U set_iter raw = Inr r"
  from multi_line_result[OF False this] False show ?thesis
    by (simp add: single_line_mode_def)
qed

lemma nonblank_le: "length (nonblank_lines raw) \<le> length (split_on newline raw)"
  by (simp add: nonblank_lines_def)

text \<open>
  C3, as the code has it.  The single-line parser is chosen exactly when the text has at
  most two newline characters, that is when splitting at newlines yields at most three
  pieces, blank ones counted; a text with four or more non-blank lines is parsed
  line by line.
\<close>

theorem mode_selection:
  "parse_resume U set_iter raw = Inr r \<Longrightarrow>
     single_line_mode r = (count_list raw newline \<le> 2)
     \<and> (4 \<le> length (nonblank_lines raw) \<longrightarrow> \<not> single_line_mode r)"
  using mode_iff[of U set_iter raw r] nonblank_le[of raw] by (auto simp: length_split_on)

lemma eval_blank_lines:
  "ascii_ok U \<Longrightarrow>
   map_sum id (\<lambda>r. (total_lines (metadata r), total_characters (metadata r)))
     (parse_resume U dedup text_blank_lines) = Inr (Some 2, None)"
  by (simp add: ev text_blank_lines_def)

theorem mode_selection_witness:
  "map_sum id single_line_mode (parse_resume ascii_data dedup text_abc) = Inr True
   \<and> 4 \<le> length (nonblank_lines text_abcd)
   \<and> map_sum id single_line_mode (parse_resume ascii_data dedup text_abcd) = Inr False"
proof -
  obtain r where r: "parse_resume ascii_data dedup text_abc = Inr r"
    using parse_total_distinct[of ascii_data dedup text_abc] by blast
  obtain r' where r': "parse_resume ascii_data dedup text_abcd = Inr r'"
    using parse_total_distinct[of ascii_data dedup text_abcd] by blast
  have n: "4 \<le> length (nonblank_lines text_abcd)"
    by (simp add: nonblank_lines_def text_abcd_def u_def newline_def strip_def char_ev)
  from mode_selection[OF r] have "single_line_mode r"
    by (simp add: text_abc_def u_def newline_def)
  moreover from mode_selection[OF r'] n have "\<not> single_line_mode r'"
    by blast
  ultimately show ?thesis using r r' n by simp
qed

text \<open>
  C3, as the specification words it, fails: a text of two non-blank lines separated by
  blank ones has five pieces and is parsed line by line, whatever the tables are beyond
  ASCII (lemma \<open>eval_blank_lines\<close>).
\<close>

theorem mode_selection_counterexample:
  "length (nonblank_lines text_blank_lines) \<le> 3
   \<and> map_sum id single_line_mode (parse_resume ascii_data dedup text_blank_lines) = Inr False"
proof -
  obtain r where r: "parse_resume ascii_data dedup text_blank_lines = Inr r"
    using parse_total_distinct[of ascii_data dedup text_blank_lines] by blast
  with eval_blank_lines[OF ascii_ok_ascii_data] have "total_characters (metadata r) = None" by simp
  with r show ?thesis
    by (simp add: single_line_mode_def nonblank_lines_def text_blank_lines_def u_def
          newline_def strip_def char_ev)
qed

lemma patterns_keys: "''experience'' \<notin> fst ` set patterns"
  by (simp add: patterns_def)

lemma found_key_truthy:
  "k \<in> set (map fst (filter (\<lambda>(k, v). v \<and> P k) xs)) \<Longrightarrow> (k, True) \<in> set xs"
  by (induction xs) (auto split: if_splits)

lemma experience_item: "(''experience'', True) \<in> set (dict_items d) \<Longrightarrow> pd_experience d \<noteq> []"
  by (cases "pd_certifications d"; cases "pd_achievements d"; cases "pd_extracurricular d")
     (auto simp: dict_items_def)

text \<open>
  C10.  A text that the single-line parser handles has no experience entry and
  \<open>experience\<close> is not among the sections found: no pattern carries that key.
\<close>

theorem single_line_no_experience:
  "length (split_on newline raw) \<le> 3 \<Longrightarrow> parse_resume U set_iter raw = Inr r \<Longrightarrow>
     experience r = [] \<and> ''experience'' \<notin> set (sections_found (metadata r))"
proof -
  assume a: "length (split_on newline raw) \<le> 3" "parse_resume U set_iter raw = Inr r"
  from single_line_result[OF a] obtain d md where
    d: "extract_sections U patterns raw
         \<lparr> pd_contact = extract_contact_info U raw, pd_education = [], pd_experience = [],
           pd_projects = [], pd_skills = [], pd_certifications = Some [],
           pd_achievements = Some [], pd_extracurricular = Some [], pd_raw_text = raw \<rparr> = Inr d"
    and r: "r = with_metadata d md"
    and md: "sections_found md = map fst (filter (\<lambda>(k, v). v \<and> k \<notin> set [''contact'', ''raw_text'', ''metadata''])
                     (dict_items d))"
    by blast
  from extract_sections_experience[OF d patterns_keys] have e: "pd_experience d = []" by simp
  have "''experience'' \<notin> set (sections_found md)"
  proof
    assume "''experience'' \<in> set (sections_found md)"
    then have "(''experience'', True) \<in> set (dict_items d)"
      unfolding md by (rule found_key_truthy)
    with e experience_item show False by blast
  qed
  with e r show ?thesis by (simp add: with_metadata_def)
qed

lemma eval_intern:
  "ascii_ok U \<Longrightarrow>
   map_sum id (\<lambda>r. (experience r, skills r, sections_found (metadata r)))
     (parse_resume U dedup (u ''EXPERIENCE Intern SKILLS Go'')) = Inr ([], [u ''Go''], [''skills''])"
  by (simp add: ev)

theorem single_line_no_experience_witness:
  "length (split_on newline (u ''EXPERIENCE Intern SKILLS Go'')) \<le> 3
   \<and> map_sum id (\<lambda>r. (experience r, ''experience'' \<in> set (sections_found (metadata r))))
        (parse_resume ascii_data dedup (u ''EXPERIENCE Intern SKILLS Go'')) = Inr ([], False)"
proof -
  have l: "length (split_on newline (u ''EXPERIENCE Intern SKILLS Go'')) \<le> 3"
    by (simp add: u_def newline_def)
  obtain r where r: "parse_resume ascii_data dedup (u ''EXPERIENCE Intern SKILLS Go'') = Inr r"
    using parse_total_distinct[of ascii_data dedup "u ''EXPERIENCE Intern SKILLS Go''"] by blast
  from single_line_no_experience[OF l r] r l show ?thesis by simp
qed


section \<open>The skills list\<close>

lemma first_pos_Cons_other: "a \<noteq> x \<Longrightarrow> first_pos a (x # xs) = Suc (first_pos a xs)"
  by simp












text \<open>
  In multi-line mode the candidates pass through a \<open>set\<close> before they are cleaned, and the
  result follows the order in which the set is iterated.
\<close>

lemma multi_line_order_follows_set:
  "ascii_ok U \<Longrightarrow>
   map_sum id (\<lambda>r. (single_line_mode r, skills r)) (parse_resume U id text_go_rust_lines)
     = Inr (False, [u ''Go'', u ''Rust''])"
  "ascii_ok U \<Longrightarrow>
   map_sum id (\<lambda>r. (single_line_mode r, skills r)) (parse_resume U rev text_go_rust_lines)
     = Inr (False, [u ''Rust'', u ''Go''])"
  by (simp_all add: ev text_go_rust_lines_def single_line_mode_def)




text \<open>
  C8 at \<open>SKILLS C, R\<close>, for every table that is right on ASCII: the single-line extractor
  keeps the cleaned items of one character, which only the multi-line extractor drops.
\<close>

theorem single_char_skills_kept:
  "ascii_ok U \<Longrightarrow>
   map_sum id skills (parse_resume U dedup (u ''SKILLS C, R'')) = Inr [u ''C'', u ''R'']"
  by (simp add: ev)

theorem single_char_skills_kept_witness:
  "map_sum id skills (parse_resume ascii_data dedup (u ''SKILLS C, R'')) = Inr [u ''C'', u ''R'']"
  using single_char_skills_kept[OF ascii_ok_ascii_data] by simp

section \<open>Entries of a section\<close>

text \<open>
  C6 at a text whose education block, found by the keyword fallback, has a line of
  asterisks, for every table that is right on ASCII: the line is kept because it is not
  blank, and cleaning then removes every character of it, so the section holds the empty
  string.
\<close>

theorem empty_entry_in_education:
  "ascii_ok U \<Longrightarrow>
   map_sum id education (parse_resume U dedup text_academic) = Inr [[], u ''x'', u ''y'']"
  by (simp add: ev text_academic_def)

theorem empty_entry_in_education_witness:
  "map_sum id education (parse_resume ascii_data dedup text_academic) = Inr [[], u ''x'', u ''y'']"
  using empty_entry_in_education[OF ascii_ok_ascii_data] by simp

section \<open>The section cut of the single-line parser\<close>

lemma star_class_Nil: "rmatch (Star (Class P)) (p, []) = [(p, [])]"
  by (simp add: rmatch.simps(6))

lemma star_class_Cons:
  "rmatch (Star (Class P)) (p, c # cs) =
     (if P c then rmatch (Star (Class P)) (Some c, cs) @ [(p, c # cs)] else [(p, c # cs)])"
  by (simp add: rmatch.simps(6) shorter_def)

lemma star_class_hd: "\<exists>rest. rmatch (Star (Class P)) (p, cs) = run_end P (p, cs) # rest"
proof (induction cs arbitrary: p)
  case Nil
  show ?case by (simp add: star_class_Nil)
next
  case (Cons c cs)
  from Cons[of "Some c"] obtain rest where "rmatch (Star (Class P)) (Some c, cs) = run_end P (Some c, cs) # rest"
    by blast
  then show ?case by (simp add: star_class_Cons)
qed

lemma snd_run_end: "snd (run_end P (p, cs)) = dropWhile P cs"
  by (induction cs arbitrary: p) auto

lemma star_class_mem:
  "e \<in> set (rmatch (Star (Class P)) (p, cs)) \<Longrightarrow>
     \<exists>w. cs = w @ snd e \<and> list_all P w \<and> fst e = (if w = [] then p else Some (last w))"
proof (induction cs arbitrary: p)
  case Nil
  then have "e = (p, [])" by (simp add: star_class_Nil)
  then show ?case by simp
next
  case (Cons c cs)
  from Cons.prems have "(P c \<and> e \<in> set (rmatch (Star (Class P)) (Some c, cs))) \<or> e = (p, c # cs)"
    by (auto simp: star_class_Cons split: if_splits)
  then show ?case
  proof
    assume a: "P c \<and> e \<in> set (rmatch (Star (Class P)) (Some c, cs))"
    from Cons.IH[OF conjunct2[OF a]] obtain w where
      w: "cs = w @ snd e" "list_all P w" "fst e = (if w = [] then Some c else Some (last w))" by blast
    have "c # cs = (c # w) @ snd e \<and> list_all P (c # w)
            \<and> fst e = (if c # w = [] then p else Some (last (c # w)))"
      using w a by simp
    then show ?thesis by blast
  next
    assume "e = (p, c # cs)"
    then have "c # cs = [] @ snd e \<and> list_all P [] \<and> fst e = (if [] = ([]::ustr) then p else Some (last []))"
      by simp
    then show ?thesis by blast
  qed
qed

lemma plus_class_Nil: "rmatch (Plus1 (Class P)) (p, []) = []"
  by (simp add: Plus1_def)

lemma plus_class_Cons:
  "rmatch (Plus1 (Class P)) (p, c # cs) = (if P c then rmatch (Star (Class P)) (Some c, cs) else [])"
  by (simp add: Plus1_def)

lemma lazy_any_Nil: "rmatch (LazyStar any_char) (p, []) = [(p, [])]"
  by (simp add: any_char_def rmatch.simps(7))

lemma lazy_any_Cons:
  "rmatch (LazyStar any_char) (p, c # cs) = (p, c # cs) # rmatch (LazyStar any_char) (Some c, cs)"
  by (simp add: any_char_def anything_def shorter_def rmatch.simps(7))

lemma advance_0: "advance 0 x = x"
  by (simp add: advance_def)

lemma advance_Suc: "advance (Suc n) (p, c # cs) = advance n (Some c, cs)"
  by (cases "take n cs") (auto simp: advance_def)

lemma chr_i_Cons: "rmatch (chr_i k) (p, c # cs) = (if same_letter k c then [(Some c, cs)] else [])"
  by (simp add: chr_i_def)

lemma chr_i_Nil: "rmatch (chr_i k) (p, []) = []"
  by (simp add: chr_i_def)

lemma rmatch_lit_i:
  "rmatch (lit_i kw) (p, cs) = (if starts_with_i kw cs then [advance (length kw) (p, cs)] else [])"
proof (induction kw arbitrary: p cs)
  case Nil
  show ?case by (simp add: advance_0)
next
  case (Cons k kw)
  show ?case
  proof (cases cs)
    case Nil
    then show ?thesis by (simp add: chr_i_Nil)
  next
    case (Cons c cs')
    with Cons.IH[of "Some c" cs'] show ?thesis
      by (simp add: chr_i_Cons advance_Suc)
  qed
qed

lemma lazy_any_suffixes: "rmatch (LazyStar any_char) (p, cs) = suffixes (p, cs)"
  by (induction cs arbitrary: p) (simp_all add: lazy_any_Nil lazy_any_Cons)

lemma rmatch_keyword_or_end:
  "rmatch (keyword_or_end stops) (p, cs) \<noteq> [] \<longleftrightarrow> at_stop stops cs"
  by (induction stops) (auto simp: at_stop_def at_keyword_def rmatch_lit_i)

lemma rmatch_ahead_any:
  "rmatch (ahead_any stops) e = (if at_stop stops (snd e) then [e] else [])"
  using rmatch_keyword_or_end[of stops "fst e" "snd e"] by (auto simp: ahead_any_def)

lemma rmatch_Eol: "rmatch Eol e = (if at_stop [] (snd e) then [e] else [])"
  by (cases e) (simp add: at_stop_def at_keyword_def)

lemma suffixes_last: "\<exists>q. (q, []) \<in> set (suffixes (p, cs))"
  by (induction cs arbitrary: p) auto

lemma lazy_until_split:
  "stop [] \<Longrightarrow>
     \<exists>e rest. filter (\<lambda>e. stop (snd e)) (suffixes (p, cs)) = e # rest
       \<and> lazy_until stop cs @ snd e = cs"
proof (induction cs arbitrary: p)
  case Nil
  then show ?case by simp
next
  case (Cons c cs)
  from Cons.IH[OF Cons.prems, of "Some c"] show ?case by auto
qed

lemma span_append: "span (q, w @ t) (q', t) = w"
  by (simp add: span_def)

lemma group_matches:
  assumes post: "\<And>e. rmatch b e = (if stop (snd e) then [e] else [])" and stop: "stop []"
  shows "\<exists>f rest.
     concat (map (\<lambda>e. map (\<lambda>f. (span (q, t) e, f)) (rmatch b e)) (rmatch (LazyStar any_char) (q, t)))
       = (lazy_until stop t, f) # rest"
proof -
  have m: "concat (map (\<lambda>e. map (\<lambda>f. (span (q, t) e, f)) (rmatch b e)) es)
             = map (\<lambda>e. (span (q, t) e, e)) (filter (\<lambda>e. stop (snd e)) es)" for es
    by (induction es) (simp_all add: post)
  from lazy_until_split[of stop q t] stop obtain e rest where
    e: "filter (\<lambda>e. stop (snd e)) (suffixes (q, t)) = e # rest" "lazy_until stop t @ snd e = t"
    by blast
  have "span (q, t) e = lazy_until stop t"
    using span_append[of q "lazy_until stop t" "snd e" "fst e"] e(2) by simp
  with e(1) show ?thesis
    by (simp add: m lazy_any_suffixes)
qed

lemma rmatch_ws_run:
  "rmatch ws_run (q, t) =
     (case t of [] \<Rightarrow> [] | c # t' \<Rightarrow> if is_space c then rmatch (Star (Class is_space)) (Some c, t') else [])"
  by (cases t) (simp_all add: ws_run_def plus_class_Nil plus_class_Cons)

lemma rmatch_ws_run_hd:
  "rmatch ws_run (q, t) = [] \<and> (case t of [] \<Rightarrow> True | c # _ \<Rightarrow> \<not> is_space c)
   \<or> (\<exists>q' rest. rmatch ws_run (q, t) = (q', dropWhile is_space t) # rest
         \<and> (case t of [] \<Rightarrow> False | c # _ \<Rightarrow> is_space c))"
proof (cases t)
  case Nil
  then show ?thesis by (simp add: rmatch_ws_run)
next
  case (Cons c t')
  show ?thesis
  proof (cases "is_space c")
    case True
    from star_class_hd[of is_space "Some c" t'] obtain rest where
      "rmatch (Star (Class is_space)) (Some c, t') = run_end is_space (Some c, t') # rest" by blast
    moreover obtain q' where "run_end is_space (Some c, t') = (q', dropWhile is_space t')"
      using snd_run_end[of is_space "Some c" t'] by (cases "run_end is_space (Some c, t')") auto
    ultimately show ?thesis using Cons True by (simp add: rmatch_ws_run)
  next
    case False
    with Cons show ?thesis by (simp add: rmatch_ws_run)
  qed
qed

lemma snd_advance: "snd (advance n (p, cs)) = drop n cs"
  by (simp add: advance_def)

lemma rmatch_header:
  "rmatch (header kw) (p, cs) =
     (if starts_with_i kw cs then rmatch ws_run (advance (length kw) (p, cs)) else [])"
  by (simp add: header_def rmatch_lit_i)

lemma rmatch_header_cases:
  "(\<not> header_here kw cs \<and> rmatch (header kw) (p, cs) = [])
   \<or> (header_here kw cs \<and>
        (\<exists>q' rest. rmatch (header kw) (p, cs) = (q', dropWhile is_space (drop (length kw) cs)) # rest))"
proof (cases "starts_with_i kw cs")
  case False
  then show ?thesis by (simp add: rmatch_header header_here_def)
next
  case True
  obtain q t where a: "advance (length kw) (p, cs) = (q, t)" by (cases "advance (length kw) (p, cs)")
  then have t: "t = drop (length kw) cs" using snd_advance[of "length kw" p cs] by simp
  from rmatch_ws_run_hd[of q t] show ?thesis
    using True a t by (auto simp: rmatch_header header_here_def split: list.splits)
qed

lemma rmatch_group_header:
  assumes post: "\<And>e. rmatch b e = (if stop (snd e) then [e] else [])" and stop: "stop []"
  shows "(\<not> header_here kw cs \<and> rmatch_group (header kw) (LazyStar any_char) b (p, cs) = [])
   \<or> (header_here kw cs \<and>
        (\<exists>f rest. rmatch_group (header kw) (LazyStar any_char) b (p, cs)
            = (lazy_until stop (dropWhile is_space (drop (length kw) cs)), f) # rest))"
proof -
  from rmatch_header_cases[of kw cs p] show ?thesis
  proof
    assume "\<not> header_here kw cs \<and> rmatch (header kw) (p, cs) = []"
    then show ?thesis by (simp add: rmatch_group_def)
  next
    assume h: "header_here kw cs \<and>
        (\<exists>q' rest. rmatch (header kw) (p, cs) = (q', dropWhile is_space (drop (length kw) cs)) # rest)"
    then obtain q' rest where
      r: "rmatch (header kw) (p, cs) = (q', dropWhile is_space (drop (length kw) cs)) # rest" by blast
    from group_matches[of b stop q' "dropWhile is_space (drop (length kw) cs)"] post stop
    obtain f rest' where
      "concat (map (\<lambda>e. map (\<lambda>f. (span (q', dropWhile is_space (drop (length kw) cs)) e, f)) (rmatch b e))
           (rmatch (LazyStar any_char) (q', dropWhile is_space (drop (length kw) cs))))
       = (lazy_until stop (dropWhile is_space (drop (length kw) cs)), f) # rest'" by blast
    with r h show ?thesis by (simp add: rmatch_group_def)
  qed
qed

lemma search_group_header:
  assumes post: "\<And>e. rmatch b e = (if stop (snd e) then [e] else [])" and stop: "stop []"
  shows "search_group_from (header kw) (LazyStar any_char) b (p, cs)
     = map_option (\<lambda>t. lazy_until stop (dropWhile is_space t)) (text_after_header kw cs)"
proof (induction cs arbitrary: p)
  case Nil
  have "\<not> header_here kw []" by (simp add: header_here_def)
  with rmatch_group_header[OF post stop, of kw "[]" p] show ?case by auto
next
  case (Cons c cs)
  from rmatch_group_header[OF post stop, of kw "c # cs" p] show ?case
    using Cons.IH[of "Some c"] by auto
qed

lemma same_letter_not_space: "is_AZ k \<Longrightarrow> same_letter k c \<Longrightarrow> \<not> is_space c"
  by (auto simp: same_letter_def re_lower_def is_AZ_def is_space_def split: if_splits)

lemma at_keyword_not_space:
  "list_all letter_first stops \<Longrightarrow> at_keyword stops (c # cs) \<Longrightarrow> \<not> is_space c"
proof (induction stops)
  case Nil
  then show ?case by (simp add: at_keyword_def)
next
  case (Cons k stops)
  show ?case
  proof (cases "starts_with_i k (c # cs)")
    case True
    with Cons.prems(1) show ?thesis
      by (cases k) (auto simp: letter_first_def dest: same_letter_not_space)
  next
    case False
    with Cons show ?thesis by (simp add: at_keyword_def)
  qed
qed

lemma lazy_until_skip_spaces:
  "list_all letter_first stops \<Longrightarrow>
     lazy_until (at_keyword stops) t
       = takeWhile is_space t @ lazy_until (at_keyword stops) (dropWhile is_space t)"
  by (induction t) (auto dest: at_keyword_not_space)

lemma strip_leading: "strip (takeWhile is_space t @ x) = strip x"
proof -
  have "dropWhile is_space (takeWhile is_space t @ x) = dropWhile is_space x"
    by (induction t) auto
  then show ?thesis by (simp add: strip_def)
qed

lemma is_space_newline: "is_space newline"
  by (simp add: is_space_def newline_def)

lemma strip_trailing_newline: "strip (y @ [newline]) = strip y"
proof (cases "list_all is_space y")
  case True
  then have a: "\<And>x. x \<in> set y \<Longrightarrow> is_space x" by (simp add: list_all_iff)
  have d1: "dropWhile is_space y = []" using a by simp
  have d2: "dropWhile is_space (y @ [newline]) = []" using a is_space_newline by simp
  show ?thesis by (simp only: strip_def d1 d2)
next
  case False
  then obtain x where "x \<in> set y" "\<not> is_space x" by (auto simp: list_all_iff)
  then have "dropWhile is_space (y @ [newline]) = dropWhile is_space y @ [newline]"
    by (rule dropWhile_append1)
  then show ?thesis by (simp add: strip_def is_space_newline)
qed

lemma lazy_until_end:
  "lazy_until (at_keyword stops) x = lazy_until (at_stop stops) x
   \<or> lazy_until (at_keyword stops) x = lazy_until (at_stop stops) x @ [newline]"
  by (induction x) (auto simp: at_stop_def)

lemma strip_cut:
  "list_all letter_first stops \<Longrightarrow>
     strip (lazy_until (at_stop stops) (dropWhile is_space t)) = strip (up_to_keyword stops t)"
proof -
  assume l: "list_all letter_first stops"
  have "strip (up_to_keyword stops t) = strip (lazy_until (at_keyword stops) (dropWhile is_space t))"
    unfolding up_to_keyword_def
    using lazy_until_skip_spaces[OF l, of t] strip_leading by metis
  also have "\<dots> = strip (lazy_until (at_stop stops) (dropWhile is_space t))"
    using lazy_until_end[of stops "dropWhile is_space t"] strip_trailing_newline by metis
  finally show ?thesis by simp
qed

lemma at_stop_Nil: "at_stop stops []"
  by (simp add: at_stop_def)

lemma search_ahead:
  "list_all letter_first stops \<Longrightarrow>
     map_option strip (re_search_group (header kw) (LazyStar any_char) (ahead_any stops) raw)
       = map_option (\<lambda>t. strip (up_to_keyword stops t)) (text_after_header kw raw)"
  using search_group_header[of "ahead_any stops" "at_stop stops" kw None raw]
  by (simp add: rmatch_ahead_any at_stop_Nil re_search_group_def option.map_comp comp_def strip_cut)

lemma search_eol:
  "map_option strip (re_search_group (header kw) (LazyStar any_char) Eol raw)
       = map_option (\<lambda>t. strip (up_to_keyword [] t)) (text_after_header kw raw)"
  using search_group_header[of Eol "at_stop []" kw None raw] strip_cut[of "[]"]
  by (simp add: rmatch_Eol at_stop_Nil re_search_group_def option.map_comp comp_def)

lemma at_keyword_append: "at_keyword (stops @ [k]) cs = (at_keyword stops cs \<or> starts_with_i k cs)"
  by (simp add: at_keyword_def)

lemma up_to_keyword_not_before:
  "\<not> begins_before k stops t \<Longrightarrow> up_to_keyword (stops @ [k]) t = up_to_keyword stops t"
  unfolding up_to_keyword_def
  by (induction t) (auto simp: at_keyword_append split: if_splits)

lemma search_ahead_not_before:
  assumes "list_all letter_first stops"
    and "\<And>t. text_after_header kw raw = Some t \<Longrightarrow> \<not> begins_before k stops t"
  shows "map_option strip (re_search_group (header kw) (LazyStar any_char) (ahead_any stops) raw)
       = map_option (\<lambda>t. strip (up_to_keyword (stops @ [k]) t)) (text_after_header kw raw)"
proof (cases "text_after_header kw raw")
  case None
  with search_ahead[OF assms(1), of kw raw] show ?thesis by simp
next
  case (Some t)
  with assms(2) have "\<not> begins_before k stops t" by blast
  then have "up_to_keyword (stops @ [k]) t = up_to_keyword stops t"
    by (rule up_to_keyword_not_before)
  with Some search_ahead[OF assms(1), of kw raw] show ?thesis by simp
qed

lemma content_education:
  assumes "\<not> extracurricular_inside ''EDUCATION'' raw"
  shows "section_content ''education'' raw = amended_content ''EDUCATION'' raw"
proof -
  have l: "list_all letter_first [''SKILLS'', ''PROJECTS'', ''CERTIFICATIONS'', ''ACHIEVEMENTS'']"
    by (simp add: letter_first_def is_AZ_def)
  have "\<not> begins_before ''EXTRACURRICULAR''
           [''SKILLS'', ''PROJECTS'', ''CERTIFICATIONS'', ''ACHIEVEMENTS''] t"
    if "text_after_header ''EDUCATION'' raw = Some t" for t
    using assms that by (simp add: extracurricular_inside_def later_keywords_def chain_def)
  from search_ahead_not_before[OF l this] show ?thesis
    by (simp add: section_content_def patterns_def amended_content_def later_keywords_def chain_def)
qed

lemma content_skills:
  assumes "\<not> extracurricular_inside ''SKILLS'' raw"
  shows "section_content ''skills'' raw = amended_content ''SKILLS'' raw"
proof -
  have l: "list_all letter_first [''PROJECTS'', ''CERTIFICATIONS'', ''ACHIEVEMENTS'']"
    by (simp add: letter_first_def is_AZ_def)
  have "\<not> begins_before ''EXTRACURRICULAR'' [''PROJECTS'', ''CERTIFICATIONS'', ''ACHIEVEMENTS''] t"
    if "text_after_header ''SKILLS'' raw = Some t" for t
    using assms that by (simp add: extracurricular_inside_def later_keywords_def chain_def)
  from search_ahead_not_before[OF l this] show ?thesis
    by (simp add: section_content_def patterns_def amended_content_def later_keywords_def chain_def)
qed

lemma content_projects: "section_content ''projects'' raw = amended_content ''PROJECTS'' raw"
  using search_ahead[of "[''CERTIFICATIONS'', ''ACHIEVEMENTS'', ''EXTRACURRICULAR'']" "''PROJECTS''" raw]
  by (simp add: section_content_def patterns_def amended_content_def later_keywords_def chain_def
        letter_first_def is_AZ_def)

lemma content_certifications:
  "section_content ''certifications'' raw = amended_content ''CERTIFICATIONS'' raw"
  using search_ahead[of "[''ACHIEVEMENTS'', ''EXTRACURRICULAR'']" "''CERTIFICATIONS''" raw]
  by (simp add: section_content_def patterns_def amended_content_def later_keywords_def chain_def
        letter_first_def is_AZ_def)

lemma content_achievements:
  "section_content ''achievements'' raw = amended_content ''ACHIEVEMENTS'' raw"
  using search_ahead[of "[''EXTRACURRICULAR'']" "''ACHIEVEMENTS''" raw]
  by (simp add: section_content_def patterns_def amended_content_def later_keywords_def chain_def
        letter_first_def is_AZ_def)

lemma content_extracurricular:
  "section_content ''extracurricular'' raw = amended_content ''EXTRACURRICULAR'' raw"
  using search_eol[of "''EXTRACURRICULAR''" raw]
  by (simp add: section_content_def patterns_def amended_content_def later_keywords_def chain_def)

text \<open>
  Where EXTRACURRICULAR does begin before the keywords that the pattern of education or of
  skills looks for, the content runs on past it and differs from the cut at the next
  keyword of the chain.
\<close>

lemma dropWhile_append_kept:
  "q \<noteq> [] \<Longrightarrow> \<not> P (hd q) \<Longrightarrow> dropWhile P (p @ q) = dropWhile P p @ q"
  by (induction p) (simp_all add: dropWhile_eq_self_iff)

lemma strip_longer:
  assumes q: "q \<noteq> []" and h: "\<not> is_space (hd q)"
  shows "length (strip p) < length (strip (p @ q))"
proof -
  let ?p' = "dropWhile is_space p"
  have 1: "dropWhile is_space (p @ q) = ?p' @ q"
    using q h by (rule dropWhile_append_kept)
  have x: "hd q \<in> set (rev q)" using q by simp
  have 2: "dropWhile is_space (rev q @ rev ?p') = dropWhile is_space (rev q) @ rev ?p'"
    using x h by (rule dropWhile_append1)
  have "dropWhile is_space (rev q) \<noteq> []"
    using x h by (auto simp: dropWhile_eq_Nil_conv)
  then have 3: "0 < length (dropWhile is_space (rev q))" by simp
  have "length (strip p) \<le> length ?p'"
    using length_dropWhile_le[of is_space "rev ?p'"] by (simp add: strip_def)
  moreover have "length (strip (p @ q)) = length (dropWhile is_space (rev q)) + length ?p'"
    by (simp add: strip_def 1 2)
  ultimately show ?thesis using 3 by linarith
qed

lemma cut_runs_on:
  "begins_before (k # ks) stops t \<Longrightarrow>
     \<exists>q. up_to_keyword stops t = up_to_keyword (stops @ [k # ks]) t @ q
       \<and> q \<noteq> [] \<and> same_letter (of_char k) (hd q)"
  unfolding up_to_keyword_def
proof (induction t)
  case Nil
  then show ?case by simp
next
  case (Cons c cs)
  from Cons.prems have ns: "\<not> at_keyword stops (c # cs)"
    by (simp split: if_splits)
  show ?case
  proof (cases "starts_with_i (k # ks) (c # cs)")
    case True
    then have "same_letter (of_char k) c" by simp
    with True ns show ?thesis by (simp add: at_keyword_append)
  next
    case False
    with Cons.prems ns have "begins_before (k # ks) stops cs" by (auto split: if_splits)
    from Cons.IH[OF this] False ns show ?thesis by (simp add: at_keyword_append)
  qed
qed

lemma cut_differs:
  assumes "begins_before (k # ks) stops t" and "is_AZ (of_char k)"
  shows "strip (up_to_keyword stops t) \<noteq> strip (up_to_keyword (stops @ [k # ks]) t)"
proof -
  from cut_runs_on[OF assms(1)] obtain q where
    q: "up_to_keyword stops t = up_to_keyword (stops @ [k # ks]) t @ q" "q \<noteq> []"
       "same_letter (of_char k) (hd q)" by blast
  from same_letter_not_space[OF assms(2) q(3)] have "\<not> is_space (hd q)" .
  from strip_longer[OF q(2) this, of "up_to_keyword (stops @ [k # ks]) t"] q(1)
  show ?thesis by auto
qed

lemma extracurricular_inside_differs:
  assumes "(name, kw) \<in> set section_keywords" and "kw = ''EDUCATION'' \<or> kw = ''SKILLS''"
    and "extracurricular_inside kw raw"
  shows "section_content name raw \<noteq> amended_content kw raw"
proof -
  from assms(3) obtain t where t: "text_after_header kw raw = Some t"
    and b: "begins_before ''EXTRACURRICULAR'' (butlast (later_keywords kw)) t"
    by (auto simp: extracurricular_inside_def split: option.splits)
  have az: "is_AZ (of_char CHR ''E'')" by (simp add: is_AZ_def)
  from assms(2) show ?thesis
  proof
    assume kw: "kw = ''EDUCATION''"
    with assms(1) have name: "name = ''education''" by (auto simp: section_keywords_def)
    have l: "list_all letter_first [''SKILLS'', ''PROJECTS'', ''CERTIFICATIONS'', ''ACHIEVEMENTS'']"
      by (simp add: letter_first_def is_AZ_def)
    from b kw have "begins_before ''EXTRACURRICULAR''
        [''SKILLS'', ''PROJECTS'', ''CERTIFICATIONS'', ''ACHIEVEMENTS''] t"
      by (simp add: later_keywords_def chain_def)
    from cut_differs[OF this az]
    have d: "strip (up_to_keyword [''SKILLS'', ''PROJECTS'', ''CERTIFICATIONS'', ''ACHIEVEMENTS''] t)
               \<noteq> strip (up_to_keyword (later_keywords ''EDUCATION'') t)"
      by (simp add: later_keywords_def chain_def)
    have "section_content ''education'' raw
            = map_option strip (re_search_group (header ''EDUCATION'') (LazyStar any_char)
                (ahead_any [''SKILLS'', ''PROJECTS'', ''CERTIFICATIONS'', ''ACHIEVEMENTS'']) raw)"
      by (simp add: section_content_def patterns_def)
    also have "\<dots> = Some (strip (up_to_keyword
                 [''SKILLS'', ''PROJECTS'', ''CERTIFICATIONS'', ''ACHIEVEMENTS''] t))"
      using search_ahead[OF l, of "''EDUCATION''" raw] t kw by simp
    finally show ?thesis
      using d t kw name by (simp add: amended_content_def)
  next
    assume kw: "kw = ''SKILLS''"
    with assms(1) have name: "name = ''skills''" by (auto simp: section_keywords_def)
    have l: "list_all letter_first [''PROJECTS'', ''CERTIFICATIONS'', ''ACHIEVEMENTS'']"
      by (simp add: letter_first_def is_AZ_def)
    from b kw have "begins_before ''EXTRACURRICULAR''
        [''PROJECTS'', ''CERTIFICATIONS'', ''ACHIEVEMENTS''] t"
      by (simp add: later_keywords_def chain_def)
    from cut_differs[OF this az]
    have d: "strip (up_to_keyword [''PROJECTS'', ''CERTIFICATIONS'', ''ACHIEVEMENTS''] t)
               \<noteq> strip (up_to_keyword (later_keywords ''SKILLS'') t)"
      by (simp add: later_keywords_def chain_def)
    have "section_content ''skills'' raw
            = map_option strip (re_search_group (header ''SKILLS'') (LazyStar any_char)
                (ahead_any [''PROJECTS'', ''CERTIFICATIONS'', ''ACHIEVEMENTS'']) raw)"
      by (simp add: section_content_def patterns_def)
    also have "\<dots> = Some (strip (up_to_keyword [''PROJECTS'', ''CERTIFICATIONS'', ''ACHIEVEMENTS''] t))"
      using search_ahead[OF l, of "''SKILLS''" raw] t kw by simp
    finally show ?thesis
      using d t kw name by (simp add: amended_content_def)
  qed
qed

text \<open>
  C4, as the code has it.  For each of the six sections the content is the trimmed text
  that follows the first occurrence of the header keyword with a whitespace character
  behind it, letter case ignored and newlines included, up to the first keyword that comes
  later in the chain or the end of the text; without such an occurrence there is no
  content.  For education and skills, whose patterns do not look for EXTRACURRICULAR, this
  is stated for the texts in which EXTRACURRICULAR does not begin behind the header before
  the first of the keywords that the pattern looks for.
\<close>

theorem section_content_amended:
  "(name, kw) \<in> set section_keywords \<Longrightarrow>
   (kw = ''EDUCATION'' \<or> kw = ''SKILLS'' \<Longrightarrow> \<not> extracurricular_inside kw raw) \<Longrightarrow>
   section_content name raw = amended_content kw raw"
  using content_education content_skills content_projects content_certifications
    content_achievements content_extracurricular
  by (auto simp: section_keywords_def)

lemmas spec_ev = section_content_def claimed_content_def amended_content_def later_keywords_def
  chain_def up_to_keyword_def at_keyword_def header_here_def section_keywords_def
  extracurricular_inside_def

text \<open>
  C4 as the specification words it fails where no whitespace follows the header keyword:
  the pattern does not match and the section stays empty.
\<close>

theorem section_content_counterexample:
  "section_content ''education'' (u ''EDUCATION: BSc Physics'') = None
   \<and> claimed_content ''EDUCATION'' (u ''EDUCATION: BSc Physics'') = Some (u '': BSc Physics'')"
  by (simp add: ev spec_ev)

text \<open>
  The patterns of education and skills stop at the later keywords but not at
  EXTRACURRICULAR, at which the other patterns stop.
\<close>

lemma education_runs_past_extracurricular:
  "section_content ''education'' (u ''EDUCATION BSc EXTRACURRICULAR Chess'')
     = Some (u ''BSc EXTRACURRICULAR Chess'')
   \<and> claimed_content ''EDUCATION'' (u ''EDUCATION BSc EXTRACURRICULAR Chess'') = Some (u ''BSc'')
   \<and> extracurricular_inside ''EDUCATION'' (u ''EDUCATION BSc EXTRACURRICULAR Chess'')"
  by (simp add: ev spec_ev)

text \<open>Letter case is ignored as the matcher ignores it: a long s stands for an S.\<close>

lemma education_cut_at_long_s:
  "section_content ''education'' (u ''EDUCATION BSc Physics '' @ [383] @ u ''kills Go'')
     = Some (u ''BSc Physics'')"
  by (simp add: ev spec_ev)

text \<open>The fields of the result for the example of the specification.\<close>

lemma eval_example_fields:
  "ascii_ok U \<Longrightarrow>
   map_sum id (\<lambda>r. (education r, skills r, projects r))
     (parse_resume U dedup (u ''EDUCATION X Y SKILLS Python Java PROJECTS Foo''))
     = Inr ([], [u ''Python Java''], [])"
  by (simp add: ev)

lemma eval_amended_example:
  "\<not> extracurricular_inside ''EDUCATION'' (u ''EDUCATION X Y SKILLS Python Java PROJECTS Foo'')"
  "\<not> extracurricular_inside ''SKILLS'' (u ''EDUCATION X Y SKILLS Python Java PROJECTS Foo'')"
  "amended_content ''EDUCATION'' (u ''EDUCATION X Y SKILLS Python Java PROJECTS Foo'') = Some (u ''X Y'')"
  "amended_content ''SKILLS'' (u ''EDUCATION X Y SKILLS Python Java PROJECTS Foo'') = Some (u ''Python Java'')"
  "amended_content ''PROJECTS'' (u ''EDUCATION X Y SKILLS Python Java PROJECTS Foo'') = Some (u ''Foo'')"
  by (simp_all add: ev spec_ev)

lemma eval_amended_later_extracurricular:
  "\<not> extracurricular_inside ''EDUCATION'' (u ''EDUCATION BSc SKILLS Go EXTRACURRICULAR Chess club'')"
  "amended_content ''EDUCATION'' (u ''EDUCATION BSc SKILLS Go EXTRACURRICULAR Chess club'') = Some (u ''BSc'')"
  by (simp_all add: ev spec_ev)

theorem section_content_amended_witness:
  "section_content ''education'' (u ''EDUCATION X Y SKILLS Python Java PROJECTS Foo'') = Some (u ''X Y'')
   \<and> section_content ''skills'' (u ''EDUCATION X Y SKILLS Python Java PROJECTS Foo'') = Some (u ''Python Java'')
   \<and> section_content ''projects'' (u ''EDUCATION X Y SKILLS Python Java PROJECTS Foo'') = Some (u ''Foo'')
   \<and> section_content ''education'' (u ''EDUCATION BSc SKILLS Go EXTRACURRICULAR Chess club'') = Some (u ''BSc'')"
  using section_content_amended[of "''education''" "''EDUCATION''" "u ''EDUCATION X Y SKILLS Python Java PROJECTS Foo''"]
    section_content_amended[of "''skills''" "''SKILLS''" "u ''EDUCATION X Y SKILLS Python Java PROJECTS Foo''"]
    section_content_amended[of "''projects''" "''PROJECTS''" "u ''EDUCATION X Y SKILLS Python Java PROJECTS Foo''"]
    section_content_amended[of "''education''" "''EDUCATION''" "u ''EDUCATION BSc SKILLS Go EXTRACURRICULAR Chess club''"]
    eval_amended_example eval_amended_later_extracurricular
  by (simp add: section_keywords_def)
section \<open>Cleaning a skill twice\<close>

lemma search_none_sub: "search_from r (p, cs) = None \<Longrightarrow> sub_from r rep (p, cs) = cs"
proof (induction cs arbitrary: p)
  case Nil
  then show ?case by (subst sub_from.simps) (simp split: list.splits)
next
  case (Cons c cs)
  then show ?case by (subst sub_from.simps) (simp split: list.splits)
qed

lemma re_sub_no_match: "re_search r s = None \<Longrightarrow> re_sub r rep s = s"
  by (simp add: re_search_def re_sub_def search_none_sub)

lemma rmatch_shorter: "e \<in> set (rmatch r x) \<Longrightarrow> length (snd e) \<le> length (snd x)"
proof (induction r x arbitrary: e rule: rmatch.induct)
  case (6 a x)
  from "6.prems" have "e = x \<or> (\<exists>y\<in>set (filter (shorter x) (rmatch a x)). e \<in> set (rmatch (Star a) y))"
    by (subst (asm) rmatch.simps(6)) auto
  then show ?case
  proof
    assume "e = x"
    then show ?thesis by simp
  next
    assume "\<exists>y\<in>set (filter (shorter x) (rmatch a x)). e \<in> set (rmatch (Star a) y)"
    then obtain y where y: "y \<in> set (filter (shorter x) (rmatch a x))" "e \<in> set (rmatch (Star a) y)"
      by blast
    from "6.IH"(2)[OF y] y(1) show ?thesis by (simp add: shorter_def)
  qed
next
  case (7 a x)
  from "7.prems" have "e = x \<or> (\<exists>y\<in>set (filter (shorter x) (rmatch a x)). e \<in> set (rmatch (LazyStar a) y))"
    by (subst (asm) rmatch.simps(7)) auto
  then show ?case
  proof
    assume "e = x"
    then show ?thesis by simp
  next
    assume "\<exists>y\<in>set (filter (shorter x) (rmatch a x)). e \<in> set (rmatch (LazyStar a) y)"
    then obtain y where y: "y \<in> set (filter (shorter x) (rmatch a x))" "e \<in> set (rmatch (LazyStar a) y)"
      by blast
    from "7.IH"(2)[OF y] y(1) show ?thesis by (simp add: shorter_def)
  qed
qed (fastforce split: if_splits)+

lemma collapse_from_True: "collapse_from True cs = collapse_from False (dropWhile is_space cs)"
  by (induction cs) auto

lemma sub_ws_run: "sub_from ws_run [32] (p, cs) = collapse_from False cs"
proof (induction "length cs" arbitrary: p cs rule: less_induct)
  case less
  show ?case
  proof (cases cs)
    case Nil
    then show ?thesis by (subst sub_from.simps) (simp add: rmatch_ws_run)
  next
    case (Cons c cs')
    show ?thesis
    proof (cases "is_space c")
      case False
      have "sub_from ws_run [32] (Some c, cs') = collapse_from False cs'"
        using less[of cs' "Some c"] Cons by simp
      with False Cons show ?thesis
        by (subst sub_from.simps) (simp add: rmatch_ws_run)
    next
      case True
      from rmatch_ws_run_hd[of p cs] Cons True obtain q' rest where
        m: "rmatch ws_run (p, cs) = (q', dropWhile is_space cs') # rest" by auto
      have l: "length (dropWhile is_space cs') < length cs"
        using Cons length_dropWhile_le[of is_space cs'] by simp
      from less[OF l, of q'] have "sub_from ws_run [32] (q', dropWhile is_space cs') = collapse_from True cs'"
        by (simp add: collapse_from_True)
      with m l True Cons show ?thesis
        by (subst sub_from.simps) (simp add: shorter_def)
    qed
  qed
qed

lemma spaced_ok_collapse: "spaced_ok f (collapse_from f cs)"
  by (induction cs arbitrary: f) (auto simp: is_space_def)

lemma collapse_spaced_ok: "spaced_ok f cs \<Longrightarrow> collapse_from f cs = cs"
  by (induction cs arbitrary: f) (auto split: if_splits)

lemma spaced_ok_weaken: "spaced_ok f cs \<Longrightarrow> spaced_ok False cs"
  by (cases cs) (auto split: if_splits)

lemma spaced_ok_prefix: "spaced_ok f (xs @ ys) \<Longrightarrow> spaced_ok f xs"
  by (induction xs arbitrary: f) (auto split: if_splits)

lemma spaced_ok_dropWhile: "spaced_ok f cs \<Longrightarrow> spaced_ok False (dropWhile is_space cs)"
proof (induction cs arbitrary: f)
  case Nil
  then show ?case by simp
next
  case (Cons c cs)
  show ?case
  proof (cases "is_space c")
    case True
    with Cons.prems have "spaced_ok True cs" by simp
    from Cons.IH[OF this] True show ?thesis by simp
  next
    case False
    with Cons.prems show ?thesis by (auto intro: spaced_ok_weaken)
  qed
qed

lemma strip_prefix: "\<exists>ys. dropWhile is_space s = strip s @ ys \<and> list_all is_space ys"
proof -
  have "rev (dropWhile is_space (rev (dropWhile is_space s)))
          @ rev (takeWhile is_space (rev (dropWhile is_space s))) = dropWhile is_space s"
    by (metis rev_append rev_rev_ident takeWhile_dropWhile_id)
  moreover have "list_all is_space (rev (takeWhile is_space (rev (dropWhile is_space s))))"
    by (simp add: list_all_iff) (meson set_takeWhileD)
  ultimately show ?thesis unfolding strip_def by metis
qed

lemma spaced_ok_strip: "spaced_ok f cs \<Longrightarrow> spaced_ok False (strip cs)"
proof -
  assume "spaced_ok f cs"
  then have "spaced_ok False (dropWhile is_space cs)" by (rule spaced_ok_dropWhile)
  moreover obtain ys where "dropWhile is_space cs = strip cs @ ys" using strip_prefix by blast
  ultimately show ?thesis using spaced_ok_prefix by metis
qed

lemma strip_no_leading: "strip s = c # cs \<Longrightarrow> \<not> is_space c"
proof -
  assume a: "strip s = c # cs"
  obtain ys where "dropWhile is_space s = strip s @ ys" using strip_prefix by blast
  with a have "dropWhile is_space s = c # (cs @ ys)" by simp
  then show ?thesis by (metis hd_dropWhile list.sel(1) list.distinct(1))
qed

lemma strip_no_trailing: "strip s \<noteq> [] \<Longrightarrow> \<not> is_space (last (strip s))"
proof -
  assume a: "strip s \<noteq> []"
  let ?d = "dropWhile is_space (rev (dropWhile is_space s))"
  from a have d: "?d \<noteq> []" by (simp add: strip_def)
  then have "\<not> is_space (hd ?d)" by (rule hd_dropWhile)
  moreover have "last (strip s) = hd ?d" using d by (simp add: strip_def last_rev)
  ultimately show ?thesis by simp
qed

lemma strip_fixed:
  "(s \<noteq> [] \<Longrightarrow> \<not> is_space (hd s) \<and> \<not> is_space (last s)) \<Longrightarrow> strip s = s"
proof (cases s)
  case Nil
  then show ?thesis by (simp add: strip_def)
next
  case (Cons c cs)
  assume "s \<noteq> [] \<Longrightarrow> \<not> is_space (hd s) \<and> \<not> is_space (last s)"
  with Cons have h: "\<not> is_space c" and l: "\<not> is_space (last s)" by auto
  from h Cons have 1: "dropWhile is_space s = s" by simp
  have "hd (rev s) = last s" using Cons by (simp only: hd_rev)
  with l have "\<not> is_space (hd (rev s))" by simp
  with Cons have 2: "dropWhile is_space (rev s) = rev s" by (cases "rev s") auto
  show ?thesis by (simp add: strip_def 1 2)
qed

lemma strip_idem: "strip (strip s) = strip s"
proof (rule strip_fixed)
  assume a: "strip s \<noteq> []"
  then obtain c cs where "strip s = c # cs" by (cases "strip s") auto
  then have "\<not> is_space (hd (strip s))" using strip_no_leading by auto
  with strip_no_trailing[OF a] show "\<not> is_space (hd (strip s)) \<and> \<not> is_space (last (strip s))"
    by simp
qed

lemma ws_digit_Cons: "ws_digit D (c # t) = (is_space c \<and> starts_digit D t \<or> ws_digit D t)"
  by (cases t) (simp_all add: starts_digit_def)

lemma ws_digit_run:
  "list_all is_space w \<Longrightarrow> w \<noteq> [] \<Longrightarrow> starts_digit D t \<Longrightarrow> ws_digit D (w @ t)"
proof (induction w)
  case Nil
  then show ?case by simp
next
  case (Cons c w)
  show ?case
  proof (cases w)
    case Nil
    with Cons.prems show ?thesis by (simp add: ws_digit_Cons)
  next
    case (Cons c' w')
    with Cons.IH Cons.prems have "ws_digit D (w @ t)" by simp
    then show ?thesis by (simp add: ws_digit_Cons)
  qed
qed

lemma ws_digit_append: "ws_digit D xs \<Longrightarrow> ws_digit D (xs @ ys)"
proof (induction xs)
  case Nil
  then show ?case by simp
next
  case (Cons c xs)
  then show ?case by (cases xs) (auto simp: ws_digit_Cons starts_digit_def)
qed

lemma ws_digit_dropWhile: "ws_digit D (dropWhile P xs) \<Longrightarrow> ws_digit D xs"
  by (induction xs) (auto simp: ws_digit_Cons split: if_splits)

lemma ws_digit_strip: "ws_digit D (strip z) \<Longrightarrow> ws_digit D z"
proof -
  assume a: "ws_digit D (strip z)"
  obtain ys where "dropWhile is_space z = strip z @ ys" using strip_prefix by blast
  with a have "ws_digit D (dropWhile is_space z)" by (simp add: ws_digit_append)
  then show ?thesis by (rule ws_digit_dropWhile)
qed

lemma starts_digit_collapse:
  assumes apart: "\<And>d. D d \<Longrightarrow> \<not> is_space d"
  shows "starts_digit D (collapse_from f z) \<Longrightarrow> starts_digit D (if f then dropWhile is_space z else z)"
proof (induction z arbitrary: f)
  case Nil
  then show ?case by (simp add: starts_digit_def)
next
  case (Cons c z)
  have s32: "\<not> D 32"
    using apart[of 32] by (auto simp: is_space_def)
  show ?case
  proof (cases "is_space c")
    case True
    with Cons.prems Cons.IH[of True] s32 show ?thesis
      by (auto simp: starts_digit_def split: if_splits)
  next
    case False
    with Cons.prems show ?thesis by (simp add: starts_digit_def)
  qed
qed

lemma space_run_digit:
  "is_space c \<Longrightarrow> starts_digit D (dropWhile is_space cs) \<Longrightarrow> ws_digit D (c # cs)"
proof -
  assume a: "is_space c" "starts_digit D (dropWhile is_space cs)"
  have "list_all is_space (c # takeWhile is_space cs)"
    using a(1) by (simp add: list_all_iff) (meson set_takeWhileD)
  from ws_digit_run[OF this _ a(2)] show ?thesis by simp
qed

lemma ws_digit_collapse:
  assumes apart: "\<And>d. D d \<Longrightarrow> \<not> is_space d"
  shows "\<not> ws_digit D z \<Longrightarrow> \<not> ws_digit D (collapse_from f z)"
proof (induction z arbitrary: f)
  case Nil
  then show ?case by simp
next
  case (Cons c z)
  from Cons.prems have z: "\<not> ws_digit D z" by (simp add: ws_digit_Cons)
  show ?case
  proof (cases "is_space c")
    case True
    have "\<not> starts_digit D (collapse_from True z)"
    proof
      assume "starts_digit D (collapse_from True z)"
      then have "starts_digit D (dropWhile is_space z)"
        using starts_digit_collapse[OF apart, where f=True and z=z] by simp
      with True have "ws_digit D (c # z)" by (rule space_run_digit)
      with Cons.prems show False by simp
    qed
    with True Cons.IH[OF z, of True] show ?thesis by (simp add: ws_digit_Cons)
  next
    case False
    with Cons.IH[OF z, of False] show ?thesis by (simp add: ws_digit_Cons)
  qed
qed

lemma hd_concat_prop:
  "(\<And>y. y \<in> set ys \<Longrightarrow> f y = [] \<or> Q (hd (f y))) \<Longrightarrow>
     concat (map f ys) = [] \<or> Q (hd (concat (map f ys)))"
proof (induction ys)
  case Nil
  then show ?case by simp
next
  case (Cons y ys)
  show ?case
  proof (cases "f y = []")
    case True
    with Cons show ?thesis by simp
  next
    case False
    with Cons.prems[of y] show ?thesis by simp
  qed
qed

lemma not_starts_digit_dropWhile: "\<not> starts_digit D (dropWhile D cs)"
  by (induction cs) (simp_all add: starts_digit_def)

lemma star_digit_hd:
  "rmatch (Star (Class D)) z \<noteq> []
   \<and> \<not> starts_digit D (snd (hd (rmatch (Star (Class D)) z)))"
proof -
  obtain p cs where z: "z = (p, cs)" by (cases z)
  from star_class_hd[of D p cs] obtain rest where
    "rmatch (Star (Class D)) (p, cs) = run_end D (p, cs) # rest" by blast
  with z show ?thesis
    by (simp add: snd_run_end not_starts_digit_dropWhile)
qed

lemma version_tail_hd:
  "rmatch (Cat (Maybe (chr 46)) (Star (Class D))) y \<noteq> []
   \<and> \<not> starts_digit D (snd (hd (rmatch (Cat (Maybe (chr 46)) (Star (Class D))) y)))"
proof -
  have ne: "rmatch (Maybe (chr 46)) y \<noteq> []" by simp
  then obtain e es where es: "rmatch (Maybe (chr 46)) y = e # es"
    by (cases "rmatch (Maybe (chr 46)) y") auto
  from star_digit_hd[of D e] have "rmatch (Star (Class D)) e \<noteq> []" by simp
  with es have n: "rmatch (Cat (Maybe (chr 46)) (Star (Class D))) y \<noteq> []" by simp
  from hd_concat_prop[of "rmatch (Maybe (chr 46)) y" "rmatch (Star (Class D))"
          "\<lambda>e. \<not> starts_digit D (snd e)"] star_digit_hd[of D] n
  show ?thesis by simp
qed

lemma version_body_hd:
  "rmatch (version_body D) s = [] \<or> \<not> starts_digit D (snd (hd (rmatch (version_body D) s)))"
  using hd_concat_prop[of "rmatch (Plus1 (Class D)) s"
          "rmatch (Cat (Maybe (chr 46)) (Star (Class D)))" "\<lambda>e. \<not> starts_digit D (snd e)"]
    version_tail_hd[of D]
  by (simp add: version_body_def)

lemma version_body_match: "starts_digit D t \<Longrightarrow> rmatch (version_body D) (q, t) \<noteq> []"
proof -
  assume "starts_digit D t"
  then obtain d t' where t: "t = d # t'" "D d" by (cases t) (auto simp: starts_digit_def)
  from star_digit_hd[of D "(Some d, t')"] obtain e es where
    es: "rmatch (Star (Class D)) (Some d, t') = e # es"
    by (cases "rmatch (Star (Class D)) (Some d, t')") auto
  let ?tail = "Cat (Maybe (chr 46)) (Star (Class D))"
  from version_tail_hd[of D e] have ne: "rmatch ?tail e \<noteq> []" by blast
  have "rmatch (Plus1 (Class D)) (q, d # t') = e # es"
    using t es by (simp add: plus_class_Cons)
  then have "rmatch (Cat (Plus1 (Class D)) ?tail) (q, d # t')
               = rmatch ?tail e @ concat (map (rmatch ?tail) es)"
    by (simp only: rmatch.simps(4) list.map concat.simps)
  with ne have "rmatch (Cat (Plus1 (Class D)) ?tail) (q, d # t') \<noteq> []"
    by (metis append_is_Nil_conv)
  with t show ?thesis
    unfolding version_body_def by blast
qed

lemma version_body_needs_digit: "rmatch (version_body D) x \<noteq> [] \<Longrightarrow> starts_digit D (snd x)"
proof (cases x)
  case (Pair p cs)
  assume "rmatch (version_body D) x \<noteq> []"
  with Pair show ?thesis
    by (cases cs) (auto simp: version_body_def starts_digit_def plus_class_Nil plus_class_Cons split: if_splits)
qed

lemma year_needs_digit: "rmatch (Times 4 (Class D)) x \<noteq> [] \<Longrightarrow> starts_digit D (snd x)"
proof (cases x)
  case (Pair p cs)
  assume "rmatch (Times 4 (Class D)) x \<noteq> []"
  with Pair show ?thesis
    by (cases cs) (auto simp: Times_num starts_digit_def split: if_splits)
qed

lemma sub_from_no_match:
  "rmatch r (p, cs) = [] \<Longrightarrow>
     sub_from r rep (p, cs) = (case cs of [] \<Rightarrow> [] | c # cs' \<Rightarrow> c # sub_from r rep (Some c, cs'))"
  by (subst sub_from.simps) simp

lemma sub_from_match:
  "rmatch r (p, cs) = e # es \<Longrightarrow> shorter (p, cs) e \<Longrightarrow>
     sub_from r rep (p, cs) = rep @ sub_from r rep e"
  by (subst sub_from.simps) simp

lemma ws_run_mem:
  "s \<in> set (rmatch ws_run (p, cs)) \<Longrightarrow>
     \<exists>w. cs = w @ snd s \<and> w \<noteq> [] \<and> list_all is_space w"
proof (cases cs)
  case Nil
  assume "s \<in> set (rmatch ws_run (p, cs))"
  with Nil show ?thesis by (simp add: rmatch_ws_run)
next
  case (Cons c t)
  assume a: "s \<in> set (rmatch ws_run (p, cs))"
  with Cons have c: "is_space c" and m: "s \<in> set (rmatch (Star (Class is_space)) (Some c, t))"
    by (auto simp: rmatch_ws_run split: if_splits)
  from star_class_mem[OF m] obtain w where "t = w @ snd s" "list_all is_space w" by blast
  with c Cons have "cs = (c # w) @ snd s \<and> c # w \<noteq> [] \<and> list_all is_space (c # w)" by simp
  then show ?thesis by blast
qed

lemma after_ws_run_shorter:
  "e \<in> set (rmatch (Cat ws_run r) (p, cs)) \<Longrightarrow> length (snd e) < length cs"
proof -
  assume "e \<in> set (rmatch (Cat ws_run r) (p, cs))"
  then obtain s where s: "s \<in> set (rmatch ws_run (p, cs))" and e: "e \<in> set (rmatch r s)"
    by auto
  from ws_run_mem[OF s] obtain w where "cs = w @ snd s" "w \<noteq> []" by blast
  then have "length (snd s) < length cs" by (cases w) auto
  with rmatch_shorter[OF e] show ?thesis by simp
qed

lemma after_ws_run_digit:
  assumes needs: "\<And>x. rmatch r x \<noteq> [] \<Longrightarrow> starts_digit D (snd x)"
    and m: "rmatch (Cat ws_run r) (p, cs) \<noteq> []"
  shows "ws_digit D cs"
proof -
  from m obtain s where s: "s \<in> set (rmatch ws_run (p, cs))" and e: "rmatch r s \<noteq> []"
    by auto
  from needs[OF e] have d: "starts_digit D (snd s)" .
  from ws_run_mem[OF s] obtain w where w: "cs = w @ snd s" "w \<noteq> []" "list_all is_space w" by blast
  from ws_digit_run[OF w(3) w(2) d] w(1) show ?thesis by simp
qed

lemma search_none_ws_digit:
  assumes needs: "\<And>x. rmatch r x \<noteq> [] \<Longrightarrow> starts_digit D (snd x)"
  shows "\<not> ws_digit D cs \<Longrightarrow> search_from (Cat ws_run r) (p, cs) = None"
proof (induction cs arbitrary: p)
  case Nil
  have "rmatch (Cat ws_run r) (p, []) = []"
    using after_ws_run_digit[where r=r and D=D and p=p and cs="[]"] needs Nil by blast
  then show ?case by (simp del: rmatch.simps)
next
  case (Cons c cs)
  from Cons.prems have "\<not> ws_digit D cs" by (simp add: ws_digit_Cons)
  from Cons.IH[OF this] have n: "search_from (Cat ws_run r) (Some c, cs) = None" .
  have "rmatch (Cat ws_run r) (p, c # cs) = []"
    using after_ws_run_digit[where r=r and D=D and p=p and cs="c # cs"] needs Cons.prems by blast
  with n show ?case by (simp del: rmatch.simps)
qed

lemma sub_none_ws_digit:
  assumes needs: "\<And>x. rmatch r x \<noteq> [] \<Longrightarrow> starts_digit D (snd x)"
  shows "\<not> ws_digit D s \<Longrightarrow> re_sub (Cat ws_run r) rep s = s"
  using search_none_ws_digit[where r=r and D=D and cs=s and p=None] needs
  by (simp add: re_sub_def search_none_sub del: rmatch.simps)

lemma ws_version_hd:
  "rmatch (Cat ws_run (version_body D)) x = []
   \<or> \<not> starts_digit D (snd (hd (rmatch (Cat ws_run (version_body D)) x)))"
  using hd_concat_prop[of "rmatch ws_run x" "rmatch (version_body D)"
          "\<lambda>e. \<not> starts_digit D (snd e)"] version_body_hd[of D]
  by simp

lemma ws_version_match:
  assumes c: "is_space c" and d: "starts_digit D (dropWhile is_space t)"
  shows "rmatch (Cat ws_run (version_body D)) (p, c # t) \<noteq> []"
proof -
  from rmatch_ws_run_hd[of p "c # t"] c obtain q' rest where
    m: "rmatch ws_run (p, c # t) = (q', dropWhile is_space t) # rest" by auto
  from version_body_match[OF d, of q'] have ne: "rmatch (version_body D) (q', dropWhile is_space t) \<noteq> []" .
  from m have "rmatch (Cat ws_run (version_body D)) (p, c # t)
      = rmatch (version_body D) (q', dropWhile is_space t) @ concat (map (rmatch (version_body D)) rest)"
    by (simp only: rmatch.simps(4) list.map concat.simps)
  with ne show ?thesis by (metis append_is_Nil_conv)
qed

lemma sub_version_starts_digit:
  "starts_digit D (sub_from (Cat ws_run (version_body D)) [] (p, cs)) \<Longrightarrow> starts_digit D cs"
proof (induction "length cs" arbitrary: p cs rule: less_induct)
  case less
  let ?V = "Cat ws_run (version_body D)"
  show ?case
  proof (cases "rmatch ?V (p, cs)")
    case Nil
    from sub_from_no_match[OF Nil, of "[]"] less.prems show ?thesis
      by (cases cs) (simp_all add: starts_digit_def del: rmatch.simps)
  next
    case (Cons e es)
    then have "e \<in> set (rmatch ?V (p, cs))" by (simp del: rmatch.simps)
    from after_ws_run_shorter[OF this] have l: "length (snd e) < length cs" .
    from ws_version_hd[of D "(p, cs)"] Cons have nd: "\<not> starts_digit D (snd e)"
      by (simp del: rmatch.simps)
    from l have "shorter (p, cs) e" by (simp add: shorter_def)
    from sub_from_match[OF Cons this, of "[]"] less.prems
    have "starts_digit D (sub_from ?V [] (fst e, snd e))" by (simp del: rmatch.simps)
    from less.hyps[OF l this] nd show ?thesis by simp
  qed
qed

lemma sub_version_no_ws_digit:
  assumes apart: "\<And>d. D d \<Longrightarrow> \<not> is_space d"
  shows "\<not> ws_digit D (sub_from (Cat ws_run (version_body D)) [] (p, cs))"
proof (induction "length cs" arbitrary: p cs rule: less_induct)
  case less
  let ?V = "Cat ws_run (version_body D)"
  show ?case
  proof (cases "rmatch ?V (p, cs)")
    case Nil
    note nomatch = sub_from_no_match[OF Nil, of "[]"]
    show ?thesis
    proof (cases cs)
      case Nil
      with nomatch show ?thesis by (simp del: rmatch.simps)
    next
      case (Cons c cs')
      have out: "sub_from ?V [] (p, cs) = c # sub_from ?V [] (Some c, cs')"
        using nomatch Cons by (simp del: rmatch.simps)
      have ih: "\<not> ws_digit D (sub_from ?V [] (Some c, cs'))"
        using less[of cs' "Some c"] Cons by simp
      have "\<not> (is_space c \<and> starts_digit D (sub_from ?V [] (Some c, cs')))"
      proof
        assume a: "is_space c \<and> starts_digit D (sub_from ?V [] (Some c, cs'))"
        then have sd: "starts_digit D cs'" using sub_version_starts_digit by blast
        then obtain d t where t: "cs' = d # t" "D d" by (cases cs') (auto simp: starts_digit_def)
        with apart have "dropWhile is_space cs' = cs'" by simp
        with sd have "starts_digit D (dropWhile is_space cs')" by simp
        from ws_version_match[OF conjunct1[OF a] this, of p] \<open>rmatch ?V (p, cs) = []\<close> Cons
        show False by (simp del: rmatch.simps)
      qed
      with ih out show ?thesis by (simp only: ws_digit_Cons) simp
    qed
  next
    case (Cons e es)
    then have "e \<in> set (rmatch ?V (p, cs))" by (simp del: rmatch.simps)
    from after_ws_run_shorter[OF this] have l: "length (snd e) < length cs" .
    from l have "shorter (p, cs) e" by (simp add: shorter_def)
    from sub_from_match[OF Cons this, of "[]"]
    have "sub_from ?V [] (p, cs) = sub_from ?V [] (fst e, snd e)" by (simp del: rmatch.simps)
    with less[OF l, of "fst e"] show ?thesis by (simp del: rmatch.simps)
  qed
qed

lemma version_number_body: "version_number U = Cat ws_run (version_body (is_digit U))"
  by (simp add: version_number_def version_body_def)

lemma clean_skill_shape:
  assumes apart: "\<And>c. is_digit U c \<Longrightarrow> \<not> is_space c"
  shows "spaced_ok False (clean_skill U s) \<and> \<not> ws_digit (is_digit U) (clean_skill U s)
         \<and> strip (clean_skill U s) = clean_skill U s"
proof -
  let ?D = "is_digit U"
  let ?s2 = "re_sub trailing_conj [] (re_sub leading_conj [] s)"
  let ?v = "re_sub (version_number U) [] ?s2"
  have v: "\<not> ws_digit ?D ?v"
    using sub_version_no_ws_digit[where D="?D" and p=None and cs="?s2"] apart
    by (simp only: re_sub_def version_number_body) blast
  have y: "re_sub (year_number U) [] ?v = ?v"
    using sub_none_ws_digit[where r="Times 4 (Class ?D)" and D="?D" and s="?v" and rep="[]"]
      year_needs_digit[of ?D] v
    by (simp only: year_number_def) blast
  have w: "re_sub ws_run (u '' '') ?v = collapse_from False ?v"
    by (simp add: re_sub_def sub_ws_run u_def)
  have c: "clean_skill U s = strip (collapse_from False ?v)"
    by (simp only: clean_skill_def y w)
  have "spaced_ok False (collapse_from False ?v)" by (rule spaced_ok_collapse)
  then have 1: "spaced_ok False (strip (collapse_from False ?v))" by (rule spaced_ok_strip)
  have "\<not> ws_digit ?D (collapse_from False ?v)"
    using ws_digit_collapse[where D="?D" and z="?v" and f=False] apart v by blast
  then have 2: "\<not> ws_digit ?D (strip (collapse_from False ?v))"
    using ws_digit_strip by blast
  from 1 2 c strip_idem show ?thesis by simp
qed

lemma clean_skill_fixed:
  assumes shape: "spaced_ok False r" "\<not> ws_digit (is_digit U) r" "strip r = r"
    and conj: "re_search leading_conj r = None" "re_search trailing_conj r = None"
  shows "clean_skill U r = r"
proof -
  let ?D = "is_digit U"
  have 1: "re_sub leading_conj [] r = r" using conj(1) by (rule re_sub_no_match)
  have 2: "re_sub trailing_conj [] r = r" using conj(2) by (rule re_sub_no_match)
  have 3: "re_sub (version_number U) [] r = r"
    using sub_none_ws_digit[where r="version_body ?D" and D="?D" and s=r and rep="[]"]
      version_body_needs_digit[of ?D] shape(2)
    by (simp only: version_number_body) blast
  have 4: "re_sub (year_number U) [] r = r"
    using sub_none_ws_digit[where r="Times 4 (Class ?D)" and D="?D" and s=r and rep="[]"]
      year_needs_digit[of ?D] shape(2)
    by (simp only: year_number_def) blast
  have 5: "re_sub ws_run (u '' '') r = r"
    using collapse_spaced_ok[OF shape(1)] by (simp add: re_sub_def sub_ws_run u_def)
  show ?thesis
    by (simp only: clean_skill_def 1 2 3 4 5 shape(3))
qed

lemma ascii_digits_apart: "is_digit ascii_data c \<Longrightarrow> \<not> is_space c"
  by (auto simp: is_digit_def ascii_data_def is_09_def is_space_def)

lemma eval_and_and_python:
  "ascii_ok U \<Longrightarrow> clean_skill U (u ''and and Python'') = u ''and Python''"
  "ascii_ok U \<Longrightarrow> clean_skill U (u ''and Python'') = u ''Python''"
  by (simp_all add: ev)

lemma eval_machine_learning:
  "ascii_ok U \<Longrightarrow> clean_skill U (u ''and Machine  Learning 2'') = u ''Machine Learning''"
  "re_search leading_conj (u ''Machine Learning'') = None"
  "re_search trailing_conj (u ''Machine Learning'') = None"
  by (simp_all add: ev)

text \<open>
  Conversely, a string that still begins or ends with a conjunction is shortened by
  cleaning: none of the five substitutions makes a string longer, and the one that removes
  the conjunction makes it shorter.
\<close>

lemma sub_from_length: "length (sub_from r [] (p, cs)) \<le> length cs"
proof (induction "length cs" arbitrary: p cs rule: less_induct)
  case less
  show ?case
  proof (cases "rmatch r (p, cs)")
    case Nil
    show ?thesis
    proof (cases cs)
      case Nil
      with sub_from_no_match[OF \<open>rmatch r (p, cs) = []\<close>, of "[]"] show ?thesis
        by (simp del: rmatch.simps)
    next
      case (Cons c cs')
      with sub_from_no_match[OF \<open>rmatch r (p, cs) = []\<close>, of "[]"] less[of cs' "Some c"]
      show ?thesis by (simp del: rmatch.simps)
    qed
  next
    case (Cons e es)
    show ?thesis
    proof (cases "shorter (p, cs) e")
      case True
      then have l: "length (snd e) < length cs" by (simp add: shorter_def)
      from sub_from_match[OF Cons True, of "[]"] less[OF l, of "fst e"] l show ?thesis
        by (simp del: rmatch.simps)
    next
      case False
      show ?thesis
      proof (cases cs)
        case Nil
        with Cons False show ?thesis
          by (subst sub_from.simps) (simp del: rmatch.simps)
      next
        case c: (Cons c cs')
        with Cons False less[of cs' "Some c"] show ?thesis
          by (subst sub_from.simps) (simp del: rmatch.simps)
      qed
    qed
  qed
qed

lemma sub_from_shrinks:
  assumes consumes: "\<And>x e. e \<in> set (rmatch r x) \<Longrightarrow> shorter x e"
  shows "search_from r (p, cs) \<noteq> None \<Longrightarrow> length (sub_from r [] (p, cs)) < length cs"
proof (induction cs arbitrary: p)
  case Nil
  then obtain e es where m: "rmatch r (p, []) = e # es"
    by (cases "rmatch r (p, [])") (simp_all del: rmatch.simps)
  then have "e \<in> set (rmatch r (p, []))" by (simp del: rmatch.simps)
  from consumes[OF this] show ?case by (simp add: shorter_def)
next
  case (Cons c cs)
  show ?case
  proof (cases "rmatch r (p, c # cs)")
    case Nil
    with Cons.prems have "search_from r (Some c, cs) \<noteq> None" by (simp del: rmatch.simps)
    from Cons.IH[OF this] sub_from_no_match[OF Nil, of "[]"] show ?thesis
      by (simp del: rmatch.simps)
  next
    case m: (Cons e es)
    then have "e \<in> set (rmatch r (p, c # cs))" by (simp del: rmatch.simps)
    from consumes[OF this] have s: "shorter (p, c # cs) e" .
    from sub_from_match[OF m s, of "[]"] sub_from_length[of r "fst e" "snd e"] s show ?thesis
      by (simp add: shorter_def del: rmatch.simps)
  qed
qed

lemma re_sub_length: "length (re_sub r [] s) \<le> length s"
  by (simp add: re_sub_def sub_from_length)

lemma re_sub_shrinks:
  assumes "\<And>x e. e \<in> set (rmatch r x) \<Longrightarrow> shorter x e" and "re_search r s \<noteq> None"
  shows "length (re_sub r [] s) < length s"
  using sub_from_shrinks[where r=r and p=None and cs=s] assms
  by (simp add: re_sub_def re_search_def del: rmatch.simps)

lemma leading_conj_consumes: "e \<in> set (rmatch leading_conj x) \<Longrightarrow> shorter x e"
proof -
  assume "e \<in> set (rmatch leading_conj x)"
  then obtain s where s: "s \<in> set (rmatch conjunction x)" and e: "e \<in> set (rmatch ws_run s)"
    by (cases x) (auto simp: leading_conj_def split: if_splits simp del: rmatch.simps(5))
  from ws_run_mem[of e "fst s" "snd s"] e obtain w where "snd s = w @ snd e" "w \<noteq> []" by auto
  then have "length (snd e) < length (snd s)" by (cases w) auto
  with rmatch_shorter[OF s] show ?thesis by (simp add: shorter_def)
qed

lemma trailing_conj_consumes: "e \<in> set (rmatch trailing_conj x) \<Longrightarrow> shorter x e"
  using after_ws_run_shorter[of e "Cat conjunction Eol" "fst x" "snd x"]
  by (simp add: trailing_conj_def shorter_def del: rmatch.simps)

lemma collapse_from_length: "length (collapse_from f cs) \<le> length cs"
  by (induction cs arbitrary: f) (auto intro: le_SucI)

lemma strip_length: "length (strip s) \<le> length s"
proof -
  have "length (dropWhile is_space (rev (dropWhile is_space s))) \<le> length (dropWhile is_space s)"
    using length_dropWhile_le[of is_space "rev (dropWhile is_space s)"] by simp
  also have "\<dots> \<le> length s" by (rule length_dropWhile_le)
  finally show ?thesis by (simp add: strip_def)
qed

lemma clean_skill_length:
  "length (clean_skill U s)
     \<le> length (re_sub trailing_conj [] (re_sub leading_conj [] s))"
proof -
  let ?s2 = "re_sub trailing_conj [] (re_sub leading_conj [] s)"
  let ?v = "re_sub (version_number U) [] ?s2"
  let ?y = "re_sub (year_number U) [] ?v"
  have "length (clean_skill U s) \<le> length (re_sub ws_run (u '' '') ?y)"
    unfolding clean_skill_def by (rule strip_length)
  also have "re_sub ws_run (u '' '') ?y = collapse_from False ?y"
    by (simp add: re_sub_def sub_ws_run u_def)
  also have "length (collapse_from False ?y) \<le> length ?y" by (rule collapse_from_length)
  also have "\<dots> \<le> length ?v" by (rule re_sub_length)
  also have "\<dots> \<le> length ?s2" by (rule re_sub_length)
  finally show ?thesis .
qed

lemma conjunction_left_shrinks:
  assumes "re_search leading_conj r \<noteq> None \<or> re_search trailing_conj r \<noteq> None"
  shows "clean_skill U r \<noteq> r"
proof -
  let ?s1 = "re_sub leading_conj [] r"
  have "length (re_sub trailing_conj [] ?s1) < length r"
  proof (cases "re_search leading_conj r")
    case (Some a)
    then have "length ?s1 < length r"
      using re_sub_shrinks[where r=leading_conj and s=r] leading_conj_consumes by blast
    with re_sub_length[of trailing_conj ?s1] show ?thesis by simp
  next
    case None
    then have s1: "?s1 = r" by (rule re_sub_no_match)
    from None assms have "re_search trailing_conj r \<noteq> None" by simp
    then have "length (re_sub trailing_conj [] r) < length r"
      using re_sub_shrinks[where r=trailing_conj and s=r] trailing_conj_consumes by blast
    with s1 show ?thesis by simp
  qed
  with clean_skill_length[of U r] have "length (clean_skill U r) < length r" by simp
  then show ?thesis by auto
qed

text \<open>
  C9, as the code has it.  Each of the five substitutions runs once, so cleaning removes one
  leading and one trailing conjunction.  A cleaned string that neither begins with one of
  \<open>and\<close>, \<open>or\<close>, \<open>&\<close> followed by whitespace nor ends with whitespace followed by one of
  them is left unchanged by a second cleaning.  The tables enter through one fact of the
  Unicode database: no decimal digit is a whitespace character.
\<close>

theorem clean_skill_idempotent_amended:
  "(\<And>c. is_digit U c \<Longrightarrow> \<not> is_space c) \<Longrightarrow>
   re_search leading_conj (clean_skill U s) = None \<Longrightarrow>
   re_search trailing_conj (clean_skill U s) = None \<Longrightarrow>
   clean_skill U (clean_skill U s) = clean_skill U s"
  using clean_skill_shape[of U s] clean_skill_fixed[of "clean_skill U s" U] by blast

theorem clean_skill_idempotent_amended_witness:
  "clean_skill ascii_data (u ''and Machine  Learning 2'') = u ''Machine Learning''
   \<and> re_search leading_conj (clean_skill ascii_data (u ''and Machine  Learning 2'')) = None
   \<and> re_search trailing_conj (clean_skill ascii_data (u ''and Machine  Learning 2'')) = None
   \<and> clean_skill ascii_data (clean_skill ascii_data (u ''and Machine  Learning 2''))
       = clean_skill ascii_data (u ''and Machine  Learning 2'')"
  using clean_skill_idempotent_amended[of ascii_data "u ''and Machine  Learning 2''"]
    ascii_digits_apart eval_machine_learning(1)[OF ascii_ok_ascii_data] eval_machine_learning(2,3)
  by simp

text \<open>
  C9 as the specification words it fails on a doubled conjunction: the first cleaning
  removes one \<open>and\<close>, the second the other, whatever the tables are beyond ASCII (lemma
  \<open>eval_and_and_python\<close>).
\<close>

theorem clean_skill_counterexample:
  "clean_skill ascii_data (u ''and and Python'') = u ''and Python''
   \<and> clean_skill ascii_data (clean_skill ascii_data (u ''and and Python'')) = u ''Python''"
  using eval_and_and_python[OF ascii_ok_ascii_data] by simp

end
